theory Spec2Isabelle
  imports Main "HOL-Library.Word"
begin

section \<open>The service-NAT syncer of felix/bpf/proxy/syncer.go\<close>

text \<open>
  A shallow embedding of the \<^verbatim>\<open>Syncer\<close> of \<^verbatim>\<open>felix/bpf/proxy/syncer.go\<close>.
  Every method of the syncer is a function that takes the syncer's state and returns
  the updated state; an \<^verbatim>\<open>error\<close> return and a panic are the left summand of the
  result. Go iterates a map in an unspecified order: wherever the source ranges over a
  map, the model takes the order of the keys as an explicit list.
\<close>

subsection \<open>Addresses, CIDRs, protocols\<close>

text \<open>
  A \<^verbatim>\<open>net.IP\<close> is modelled by its canonical value: the nil slice, an IPv4 address
  (in its 4-byte or its 16-byte form, which \<^verbatim>\<open>Equal\<close> and \<^verbatim>\<open>String\<close> do not
  tell apart) or an IPv6 address that is not IPv4-mapped. \<^verbatim>\<open>net.IP.Equal\<close>, equality
  of \<^verbatim>\<open>String()\<close>, \<^verbatim>\<open>net.ParseIP\<close> and \<^verbatim>\<open>ip.FromString\<close> are equality and
  the identity on this value. The same type stands for \<^verbatim>\<open>ip.Addr\<close>.
\<close>

datatype netIP = NilIP | IP4 "32 word" | IP6 "128 word"

definition To4 :: "netIP \<Rightarrow> netIP" where
  "To4 a = (case a of IP4 x \<Rightarrow> IP4 x | _ \<Rightarrow> NilIP)"

definition podNPIP :: netIP where
  "podNPIP = IP4 (- 1)"

definition podNPIPV6 :: netIP where
  "podNPIPV6 = IP6 (- 1)"

datatype cidr = V4CIDR "32 word" nat | V6CIDR "128 word" nat

text \<open>A \<^verbatim>\<open>net.IPNet\<close>: an address and the number of ones of its mask.\<close>

record IPNet =
  net_IP :: netIP
  net_ones :: nat

text \<open>
  Modelled from the spec: \<^verbatim>\<open>ip.CIDRFromIPNet\<close> (package \<^verbatim>\<open>ip\<close> is not among the
  sources). It gives the CIDR of the family of the net's address; nets are taken in
  canonical (masked) form.
\<close>

definition CIDRFromIPNet :: "IPNet \<Rightarrow> cidr" where
  "CIDRFromIPNet n =
     (case net_IP n of
        IP4 a \<Rightarrow> V4CIDR a (net_ones n)
      | IP6 a \<Rightarrow> V6CIDR a (net_ones n)
      | NilIP \<Rightarrow> V6CIDR 0 (net_ones n))"

text \<open>
  Modelled from the spec: \<^verbatim>\<open>nat.ZeroCIDR\<close> (package \<^verbatim>\<open>nat\<close> is not among the
  sources): the zero src-CIDR of a frontend key, "any source", the /0 of the key's
  address family.
\<close>

definition ZeroCIDR :: "nat \<Rightarrow> cidr" where
  "ZeroCIDR family = (if family = 6 then V6CIDR 0 0 else V4CIDR 0 0)"

datatype Protocol = ProtocolTCP | ProtocolUDP | ProtocolSCTP | ProtocolOther string

datatype error = Err string | Panic string

definition ProtoV1ToInt :: "Protocol \<Rightarrow> error + 8 word" where
  "ProtoV1ToInt p =
     (case p of
        ProtocolTCP \<Rightarrow> Inr 6
      | ProtocolUDP \<Rightarrow> Inr 17
      | ProtocolSCTP \<Rightarrow> Inr 132
      | ProtocolOther x \<Rightarrow> Inl (Err ''unknown protocol''))"

definition ProtoV1ToIntPanic :: "Protocol \<Rightarrow> error + 8 word" where
  "ProtoV1ToIntPanic p =
     (case ProtoV1ToInt p of
        Inl e \<Rightarrow> Inl (Panic ''unknown protocol'')
      | Inr pn \<Rightarrow> Inr pn)"

subsection \<open>Services, endpoints and the syncer's keys\<close>

datatype ServiceAffinity = ServiceAffinityNone | ServiceAffinityClientIP

text \<open>
  The \<^verbatim>\<open>serviceInfo\<close> struct with the \<^verbatim>\<open>servicePortAnnotations\<close> it embeds; the
  methods of the \<^verbatim>\<open>Service\<close> interface read these fields. A nil entry of
  \<^verbatim>\<open>loadBalancerSourceRanges\<close> (a \<^verbatim>\<open>[]*net.IPNet\<close>) is \<open>None\<close>.
\<close>

record Service =
  clusterIP :: netIP
  port :: int
  protocol :: Protocol
  nodePort :: int
  sessionAffinityType :: ServiceAffinity
  stickyMaxAgeSeconds :: int
  externalIPs :: "netIP list"
  loadBalancerSourceRanges :: "IPNet option list"
  loadBalancerVIPs :: "netIP list"
  healthCheckNodePort :: int
  nodeLocalExternal :: bool
  nodeLocalInternal :: bool
  hintsAnnotation :: string
  excludeService :: bool
  reapTerminatingUDP :: bool

definition ExternallyAccessible :: "Service \<Rightarrow> bool" where
  "ExternallyAccessible info \<longleftrightarrow>
     nodePort info \<noteq> 0 \<or> length (loadBalancerVIPs info) \<noteq> 0 \<or> length (externalIPs info) \<noteq> 0"

definition UsesClusterEndpoints :: "Service \<Rightarrow> bool" where
  "UsesClusterEndpoints info \<longleftrightarrow> \<not> nodeLocalInternal info \<or> ExternallyAccessible info"

definition UsesLocalEndpoints :: "Service \<Rightarrow> bool" where
  "UsesLocalEndpoints info \<longleftrightarrow>
     nodeLocalInternal info \<or> (nodeLocalExternal info \<and> ExternallyAccessible info)"

text \<open>
  \<^verbatim>\<open>cidrEqual\<close>: the two slices have the same length and, when that length is not 1,
  every element of the second is in the set of the first. \<^verbatim>\<open>ip.CIDRFromIPOrIPNet\<close> is
  one-to-one on canonical values, so the CIDRs are compared through the values. On
  slices of length 1 the source indexes both at 0.
\<close>

definition cidrEqual :: "'a list \<Rightarrow> 'a list \<Rightarrow> bool" where
  "cidrEqual a b \<longleftrightarrow>
     (if length a \<noteq> length b then False
      else if length a = 1 then a ! 0 = b ! 0
      else list_all (\<lambda>s. s \<in> set a) b)"

definition ServicePortEqual :: "Service \<Rightarrow> Service \<Rightarrow> bool" where
  "ServicePortEqual a b \<longleftrightarrow>
     clusterIP a = clusterIP b \<and>
     port a = port b \<and>
     sessionAffinityType a = sessionAffinityType b \<and>
     stickyMaxAgeSeconds a = stickyMaxAgeSeconds b \<and>
     cidrEqual (externalIPs a) (externalIPs b) \<and>
     cidrEqual (loadBalancerVIPs a) (loadBalancerVIPs b) \<and>
     protocol a = protocol b \<and>
     cidrEqual (loadBalancerSourceRanges a) (loadBalancerSourceRanges b) \<and>
     healthCheckNodePort a = healthCheckNodePort b \<and>
     nodePort a = nodePort b \<and>
     nodeLocalExternal a = nodeLocalExternal b \<and>
     nodeLocalInternal a = nodeLocalInternal b \<and>
     hintsAnnotation a = hintsAnnotation b \<and>
     ExternallyAccessible a = ExternallyAccessible b \<and>
     UsesClusterEndpoints a = UsesClusterEndpoints b \<and>
     UsesLocalEndpoints a = UsesLocalEndpoints b"

text \<open>A \<^verbatim>\<open>k8sp.Endpoint\<close>, through the methods the syncer calls.\<close>

record Endpoint =
  ep_IP :: netIP
  ep_Port :: int
  ep_IsLocal :: bool
  ep_IsReady :: bool
  ep_IsTerminating :: bool
  ep_ZoneHints :: "string set"

type_synonym ServicePortName = string

datatype svcType = svcTypeExternalIP | svcTypeNodePort | svcTypeNodePortRemote | svcTypeLoadBalancer

text \<open>
  The \<^verbatim>\<open>extra\<close> string of a \<^verbatim>\<open>svcKey\<close> is either empty or
  \<^verbatim>\<open>svcType2String[t] + ":" + ip.String()\<close>; it is modelled by the pair it is printed
  from (\<open>None\<close> for the empty string). No type name followed by a colon is a prefix of
  another, so \<^verbatim>\<open>strings.HasPrefix\<close> on the type name is a test of the tag.
\<close>

record svcKey =
  sname :: ServicePortName
  extra :: "(svcType \<times> netIP) option"

definition getSvcKey :: "ServicePortName \<Rightarrow> (svcType \<times> netIP) option \<Rightarrow> svcKey" where
  "getSvcKey n e = \<lparr>sname = n, extra = e\<rparr>"

definition getSvcKeyExtra :: "svcType \<Rightarrow> netIP \<Rightarrow> (svcType \<times> netIP) option" where
  "getSvcKeyExtra t a = Some (t, a)"

definition hasSvcKeyExtra :: "svcKey \<Rightarrow> svcType \<Rightarrow> bool" where
  "hasSvcKeyExtra skey t \<longleftrightarrow> (case extra skey of None \<Rightarrow> False | Some (t', a) \<Rightarrow> t' = t)"

definition isSvcKeyDerived :: "svcKey \<Rightarrow> bool" where
  "isSvcKeyDerived skey \<longleftrightarrow>
     hasSvcKeyExtra skey svcTypeExternalIP \<or>
     hasSvcKeyExtra skey svcTypeNodePort \<or>
     hasSvcKeyExtra skey svcTypeLoadBalancer"

record svcInfo =
  info_id :: "32 word"
  info_count :: nat
  info_localCount :: nat
  info_svc :: Service

record stickyFrontend =
  sticky_id :: "32 word"
  sticky_timeo :: "64 word"

subsection \<open>The kernel maps' keys and values\<close>

text \<open>
  Modelled from the spec: the key and value types of package \<^verbatim>\<open>nat\<close> (not among the
  sources), as section 3 of the specification gives them. A frontend key is
  \<open>{address, port, protocol, src-CIDR}\<close>, a frontend value
  \<open>{id, count, local-count, affinity-timeout-seconds, flags}\<close>, a backend key
  \<open>{id, slot-index}\<close>, a backend value \<open>{address, port}\<close>. The flags are a set.
\<close>

record FrontendKey =
  fk_addr :: netIP
  fk_port :: "16 word"
  fk_proto :: "8 word"
  fk_src :: cidr

datatype NATFlg = NATFlgExternalLocal | NATFlgInternalLocal | NATFlgExclude

record FrontendValue =
  fv_id :: "32 word"
  fv_count :: "32 word"
  fv_localCount :: "32 word"
  fv_affinityTimeo :: "32 word"
  fv_flags :: "NATFlg set"

record BackendKey =
  bk_id :: "32 word"
  bk_idx :: "32 word"

record BackendValue =
  bv_addr :: netIP
  bv_port :: "16 word"

text \<open>The projection of a frontend key that keys the affinity table.\<close>

record FrontEndAffinityKey =
  fak_addr :: netIP
  fak_port :: "16 word"
  fak_proto :: "8 word"

record AffinityKey =
  ak_client :: netIP
  ak_frontend :: FrontEndAffinityKey

record AffinityValue =
  av_timestamp :: "64 word"
  av_backend :: BackendValue

definition NewNATValueWithFlags ::
  "32 word \<Rightarrow> 32 word \<Rightarrow> 32 word \<Rightarrow> 32 word \<Rightarrow> NATFlg set \<Rightarrow> FrontendValue" where
  "NewNATValueWithFlags i c l t f =
     \<lparr>fv_id = i, fv_count = c, fv_localCount = l, fv_affinityTimeo = t, fv_flags = f\<rparr>"

definition NewNATValue :: "32 word \<Rightarrow> 32 word \<Rightarrow> 32 word \<Rightarrow> 32 word \<Rightarrow> FrontendValue" where
  "NewNATValue i c l t = NewNATValueWithFlags i c l t {}"

text \<open>
  Modelled from the spec: \<^verbatim>\<open>nat.BlackHoleCount\<close>, the reserved value of the count
  field that makes the dataplane drop what matches the frontend.
\<close>

definition BlackHoleCount :: "32 word" where
  "BlackHoleCount = - 1"

definition NewNATBackendKey :: "32 word \<Rightarrow> 32 word \<Rightarrow> BackendKey" where
  "NewNATBackendKey i x = \<lparr>bk_id = i, bk_idx = x\<rparr>"

definition AffinityKeyCopy :: "FrontendKey \<Rightarrow> FrontEndAffinityKey" where
  "AffinityKeyCopy k = \<lparr>fak_addr = fk_addr k, fak_port = fk_port k, fak_proto = fk_proto k\<rparr>"

text \<open>
  Modelled from the spec: the caching map of \<^verbatim>\<open>felix/cachingmap\<close> (not among the
  sources) keeps two views of a kernel table: the dataplane cache, the last observed
  kernel state, and the desired state.
\<close>

record ('k, 'v) CachingMap =
  Dataplane :: "'k \<rightharpoonup> 'v"
  Desired :: "'k \<rightharpoonup> 'v"

definition Desired_Set :: "'k \<Rightarrow> 'v \<Rightarrow> ('k, 'v) CachingMap \<Rightarrow> ('k, 'v) CachingMap" where
  "Desired_Set k v m = m\<lparr>Desired := (Desired m)(k \<mapsto> v)\<rparr>"

definition Desired_DeleteAll :: "('k, 'v) CachingMap \<Rightarrow> ('k, 'v) CachingMap" where
  "Desired_DeleteAll m = m\<lparr>Desired := Map.empty\<rparr>"

subsection \<open>Routes\<close>

text \<open>
  A route as \<^verbatim>\<open>expandNodePorts\<close> reads it: the two flags it tests and the next hop.
\<close>

record Route =
  rt_FlagWorkload :: bool
  rt_FlagLocal :: bool
  rt_NextHop :: netIP

type_synonym Lookup = "netIP \<Rightarrow> Route option"

subsection \<open>The syncer\<close>

record ipPort =
  ipp_ip :: netIP
  ipp_port :: int

record ipPortProto = ipPort +
  ipp_proto :: "8 word"

record expandMiss =
  miss_sname :: ServicePortName
  miss_sinfo :: Service
  miss_eps :: "Endpoint list"
  miss_nport :: int

text \<open>
  A write to a kernel table that succeeded. The syncer's \<open>kernelLog\<close> lists them,
  oldest first: it is the order in which the kernel sees the tables change.
\<close>

datatype KernelWrite =
    FrontendDelete FrontendKey
  | BackendUpdate BackendKey BackendValue
  | FrontendUpdate FrontendKey FrontendValue
  | BackendDelete BackendKey

text \<open>
  The fields of \<^verbatim>\<open>Syncer\<close>. A nil map of the source is \<open>None\<close> where the source
  tells nil from empty (the active maps); \<^verbatim>\<open>excludedCIDRs\<close> is the predicate "the
  longest-prefix match finds a value", \<open>None\<close> for a nil trie. \<^verbatim>\<open>triggerFn\<close> is
  recorded as set or not; \<^verbatim>\<open>expFixupMisses\<close> holds the misses of the fix-up task
  that is running (\<^verbatim>\<open>expFixupStop != nil\<close>). The affinity table \<^verbatim>\<open>bpfAff\<close> is the
  list of its records in the order its iterator visits them. The syncer is the only
  writer of the kernel tables and loads its cache before the first write, so the
  \<open>Dataplane\<close> view of a caching map stands for the kernel table as well.
\<close>

record Syncer =
  ipFamily :: nat
  bpfSvcs :: "(FrontendKey, FrontendValue) CachingMap"
  bpfEps :: "(BackendKey, BackendValue) CachingMap"
  bpfAff :: "(AffinityKey \<times> AffinityValue) list"
  nextSvcID :: "32 word"
  nodePortIPs :: "netIP list"
  rt :: Lookup
  newSvcMap :: "svcKey \<rightharpoonup> svcInfo"
  newEpsMap :: "ServicePortName \<rightharpoonup> Endpoint list"
  prevSvcMap :: "svcKey \<rightharpoonup> svcInfo"
  prevEpsMap :: "ServicePortName \<rightharpoonup> Endpoint list"
  activeSvcsMap :: "(ipPortProto \<rightharpoonup> 32 word) option"
  activeEpsMap :: "(32 word \<rightharpoonup> ipPort set) option"
  synced :: bool
  expFixupMisses :: "expandMiss list option"
  stickySvcs :: "FrontEndAffinityKey \<rightharpoonup> stickyFrontend"
  stickyEps :: "32 word \<rightharpoonup> BackendValue set"
  triggerFn :: bool
  excludedCIDRs :: "(netIP \<Rightarrow> bool) option"
  kernelLog :: "KernelWrite list"

text \<open>
  \<^verbatim>\<open>s.newFrontendKey\<close> and \<^verbatim>\<open>s.newFrontendKeySrc\<close>: the constructors of the
  syncer's address family. A key built without a source has the zero src-CIDR.
\<close>

definition newFrontendKeySrc :: "Syncer \<Rightarrow> netIP \<Rightarrow> 16 word \<Rightarrow> 8 word \<Rightarrow> cidr \<Rightarrow> FrontendKey" where
  "newFrontendKeySrc s a p pr c = \<lparr>fk_addr = a, fk_port = p, fk_proto = pr, fk_src = c\<rparr>"

definition newFrontendKey :: "Syncer \<Rightarrow> netIP \<Rightarrow> 16 word \<Rightarrow> 8 word \<Rightarrow> FrontendKey" where
  "newFrontendKey s a p pr = newFrontendKeySrc s a p pr (ZeroCIDR (ipFamily s))"

definition newBackendValue :: "Syncer \<Rightarrow> netIP \<Rightarrow> 16 word \<Rightarrow> BackendValue" where
  "newBackendValue s a p = \<lparr>bv_addr = a, bv_port = p\<rparr>"

subsection \<open>Cold start: matching a kernel frontend against a service\<close>

text \<open>
  The closure \<^verbatim>\<open>matchNP\<close> of \<^verbatim>\<open>matchBpfSvc\<close>: the first node-port IP equal to the
  key's address, when the key's port is the node port.
\<close>

definition matchNP :: "Syncer \<Rightarrow> FrontendKey \<Rightarrow> ServicePortName \<Rightarrow> Service \<Rightarrow> svcKey option" where
  "matchNP s bpfSvc k8sSvc k8sInfo =
     (if fk_port bpfSvc = word_of_int (nodePort k8sInfo) then
        (case find (\<lambda>nip. fk_addr bpfSvc = nip) (nodePortIPs s) of
           Some nip \<Rightarrow> Some \<lparr>sname = k8sSvc, extra = getSvcKeyExtra svcTypeNodePort nip\<rparr>
         | None \<Rightarrow> None)
      else None)"

text \<open>
  The loop of the closure \<^verbatim>\<open>matchLBSrcIP\<close>. A source range that is not IPv4 is
  skipped; \<^verbatim>\<open>ip.CIDRFromIPNet\<close> dereferences a nil pointer.
\<close>

fun matchLBSrcIP_loop :: "cidr \<Rightarrow> IPNet option list \<Rightarrow> error + bool" where
  "matchLBSrcIP_loop c [] = Inr False"
| "matchLBSrcIP_loop c (None # rest) = Inl (Panic ''nil pointer dereference'')"
| "matchLBSrcIP_loop c (Some srcip # rest) =
     (if To4 (net_IP srcip) = NilIP then matchLBSrcIP_loop c rest
      else if CIDRFromIPNet srcip = c then Inr True
      else matchLBSrcIP_loop c rest)"

definition matchLBSrcIP :: "Syncer \<Rightarrow> FrontendKey \<Rightarrow> Service \<Rightarrow> error + bool" where
  "matchLBSrcIP s bpfSvc k8sInfo =
     (if fk_src bpfSvc = ZeroCIDR (ipFamily s) then Inr True
      else if length (loadBalancerSourceRanges k8sInfo) = 0 then Inr False
      else matchLBSrcIP_loop (fk_src bpfSvc) (loadBalancerSourceRanges k8sInfo))"

text \<open>
  The two loops of \<^verbatim>\<open>matchBpfSvc\<close> over the external IPs and the load-balancer VIPs:
  the first address equal to the key's whose source-range test passes. The loop over the
  VIPs skips an address of length 0 (\<open>skipNil\<close>).
\<close>

fun matchAddrs ::
  "Syncer \<Rightarrow> FrontendKey \<Rightarrow> ServicePortName \<Rightarrow> Service \<Rightarrow> svcType \<Rightarrow> bool \<Rightarrow> netIP list \<Rightarrow>
   error + svcKey option" where
  "matchAddrs s bpfSvc k8sSvc k8sInfo t skipNil [] = Inr None"
| "matchAddrs s bpfSvc k8sSvc k8sInfo t skipNil (a # rest) =
     (if (if skipNil \<and> a = NilIP then False else fk_addr bpfSvc = a) then
        (case matchLBSrcIP s bpfSvc k8sInfo of
           Inl e \<Rightarrow> Inl e
         | Inr True \<Rightarrow> Inr (Some \<lparr>sname = k8sSvc, extra = getSvcKeyExtra t a\<rparr>)
         | Inr False \<Rightarrow> matchAddrs s bpfSvc k8sSvc k8sInfo t skipNil rest)
      else matchAddrs s bpfSvc k8sSvc k8sInfo t skipNil rest)"

definition matchBpfSvc ::
  "Syncer \<Rightarrow> FrontendKey \<Rightarrow> ServicePortName \<Rightarrow> Service \<Rightarrow> error + svcKey option" where
  "matchBpfSvc s bpfSvc k8sSvc k8sInfo =
     (if fk_port bpfSvc \<noteq> word_of_int (port k8sInfo) then Inr (matchNP s bpfSvc k8sSvc k8sInfo)
      else if fk_addr bpfSvc = clusterIP k8sInfo \<and> fk_src bpfSvc = ZeroCIDR (ipFamily s)
      then Inr (Some \<lparr>sname = k8sSvc, extra = None\<rparr>)
      else
        (case matchAddrs s bpfSvc k8sSvc k8sInfo svcTypeExternalIP False (externalIPs k8sInfo) of
           Inl e \<Rightarrow> Inl e
         | Inr (Some sk) \<Rightarrow> Inr (Some sk)
         | Inr None \<Rightarrow>
             (case matchAddrs s bpfSvc k8sSvc k8sInfo svcTypeLoadBalancer True (loadBalancerVIPs k8sInfo) of
                Inl e \<Rightarrow> Inl e
              | Inr (Some sk) \<Rightarrow> Inr (Some sk)
              | Inr None \<Rightarrow> Inr (matchNP s bpfSvc k8sSvc k8sInfo))))"

subsection \<open>Construction\<close>

text \<open>
  \<^verbatim>\<open>uniqueIPs\<close> returns its argument when it has no duplicate and the distinct
  addresses otherwise (in the order of a map iteration; the model keeps the last
  occurrence of each).
\<close>

definition uniqueIPs :: "netIP list \<Rightarrow> netIP list" where
  "uniqueIPs ips = (if distinct ips then ips else remdups ips)"

text \<open>
  \<^verbatim>\<open>NewSyncer\<close>. The kernel's frontend, backend and affinity tables are given by
  their contents.
\<close>

definition NewSyncer ::
  "nat \<Rightarrow> netIP list \<Rightarrow> (FrontendKey \<rightharpoonup> FrontendValue) \<Rightarrow> (BackendKey \<rightharpoonup> BackendValue) \<Rightarrow>
   (AffinityKey \<times> AffinityValue) list \<Rightarrow> Lookup \<Rightarrow> (netIP \<Rightarrow> bool) option \<Rightarrow> error + Syncer" where
  "NewSyncer family npIPs frontendMap backendMap affmap routes excl =
     (if family = 4 \<or> family = 6 then
        Inr \<lparr>ipFamily = family,
             bpfSvcs = \<lparr>Dataplane = frontendMap, Desired = Map.empty\<rparr>,
             bpfEps = \<lparr>Dataplane = backendMap, Desired = Map.empty\<rparr>,
             bpfAff = affmap,
             nextSvcID = 0,
             nodePortIPs = uniqueIPs npIPs,
             rt = routes,
             newSvcMap = Map.empty,
             newEpsMap = Map.empty,
             prevSvcMap = Map.empty,
             prevEpsMap = Map.empty,
             activeSvcsMap = None,
             activeEpsMap = None,
             synced = False,
             expFixupMisses = None,
             stickySvcs = Map.empty,
             stickyEps = Map.empty,
             triggerFn = False,
             excludedCIDRs = excl,
             kernelLog = []\<rparr>
      else Inl (Err ''unknwn family''))"

subsection \<open>Writing the desired state of one service\<close>

definition newSvcID :: "Syncer \<Rightarrow> 32 word \<times> Syncer" where
  "newSvcID s = (nextSvcID s, s\<lparr>nextSvcID := nextSvcID s + 1\<rparr>)"

definition setDesiredSvc :: "FrontendKey \<Rightarrow> FrontendValue \<Rightarrow> Syncer \<Rightarrow> Syncer" where
  "setDesiredSvc k v s = s\<lparr>bpfSvcs := Desired_Set k v (bpfSvcs s)\<rparr>"

definition setDesiredEp :: "BackendKey \<Rightarrow> BackendValue \<Rightarrow> Syncer \<Rightarrow> Syncer" where
  "setDesiredEp k v s = s\<lparr>bpfEps := Desired_Set k v (bpfEps s)\<rparr>"

text \<open>\<^verbatim>\<open>writeSvcBackend\<close>; it always returns nil.\<close>

definition writeSvcBackend :: "32 word \<Rightarrow> 32 word \<Rightarrow> Endpoint \<Rightarrow> Syncer \<Rightarrow> Syncer" where
  "writeSvcBackend svcID idx ep s =
     (let key = NewNATBackendKey svcID idx;
          val = newBackendValue s (ep_IP ep) (word_of_int (ep_Port ep));
          s1 = setDesiredEp key val s
      in case stickyEps s1 svcID of
           None \<Rightarrow> s1
         | Some b \<Rightarrow> s1\<lparr>stickyEps := (stickyEps s1)(svcID \<mapsto> insert val b)\<rparr>)"

definition getSvcNATKey :: "Syncer \<Rightarrow> Service \<Rightarrow> error + FrontendKey" where
  "getSvcNATKey s svc =
     (case ProtoV1ToInt (protocol svc) of
        Inl e \<Rightarrow> Inl e
      | Inr proto \<Rightarrow> Inr (newFrontendKey s (clusterIP svc) (word_of_int (port svc)) proto))"

definition affinityTimeo :: "Service \<Rightarrow> 32 word" where
  "affinityTimeo svc =
     (if sessionAffinityType svc = ServiceAffinityClientIP
      then word_of_int (stickyMaxAgeSeconds svc) else 0)"

text \<open>\<^verbatim>\<open>time.Duration(affinityTimeo) * time.Second\<close>, in 64 bits.\<close>

definition seconds :: "32 word \<Rightarrow> 64 word" where
  "seconds t = ucast t * 1000000000"

definition writeSvc ::
  "Service \<Rightarrow> 32 word \<Rightarrow> nat \<Rightarrow> nat \<Rightarrow> NATFlg set \<Rightarrow> Syncer \<Rightarrow> error option \<times> Syncer" where
  "writeSvc svc svcID count local flags s =
     (case getSvcNATKey s svc of
        Inl e \<Rightarrow> (Some e, s)
      | Inr key \<Rightarrow>
          (let flags1 = (case excludedCIDRs s of
                           None \<Rightarrow> flags
                         | Some lpm \<Rightarrow> if lpm (clusterIP svc) then insert NATFlgExclude flags else flags);
               flags2 = (if excludeService svc then insert NATFlgExclude flags1 else flags1);
               val = NewNATValueWithFlags svcID (of_nat count) (of_nat local) (affinityTimeo svc) flags2;
               s1 = setDesiredSvc key val s
           in case stickyEps s1 svcID of
                None \<Rightarrow> (None, s1)
              | Some b \<Rightarrow>
                  (None, s1\<lparr>stickySvcs := (stickySvcs s1)(AffinityKeyCopy key \<mapsto>
                     \<lparr>sticky_id = svcID, sticky_timeo = seconds (affinityTimeo svc)\<rparr>)\<rparr>)))"

text \<open>
  The first loop of \<^verbatim>\<open>updateService\<close>, over the local endpoints, with the loop's
  variables \<^verbatim>\<open>cnt\<close>, \<^verbatim>\<open>local\<close> and \<^verbatim>\<open>cpEps\<close>.
\<close>

fun updateService_local ::
  "32 word \<Rightarrow> Endpoint list \<Rightarrow> nat \<Rightarrow> nat \<Rightarrow> Endpoint list \<Rightarrow> Syncer \<Rightarrow>
   nat \<times> nat \<times> Endpoint list \<times> Syncer" where
  "updateService_local i [] cnt local cpEps s = (cnt, local, cpEps, s)"
| "updateService_local i (ep # eps) cnt local cpEps s =
     (if \<not> ep_IsLocal ep then updateService_local i eps cnt local cpEps s
      else if ep_IsReady ep then
        updateService_local i eps (cnt + 1) (local + 1) (cpEps @ [ep])
          (writeSvcBackend i (of_nat cnt) ep s)
      else updateService_local i eps cnt local (cpEps @ [ep]) s)"

text \<open>The second loop, over the endpoints that are not local.\<close>

fun updateService_remote ::
  "32 word \<Rightarrow> Endpoint list \<Rightarrow> nat \<Rightarrow> Endpoint list \<Rightarrow> Syncer \<Rightarrow>
   nat \<times> Endpoint list \<times> Syncer" where
  "updateService_remote i [] cnt cpEps s = (cnt, cpEps, s)"
| "updateService_remote i (ep # eps) cnt cpEps s =
     (if ep_IsLocal ep then updateService_remote i eps cnt cpEps s
      else if ep_IsReady ep then
        updateService_remote i eps (cnt + 1) (cpEps @ [ep])
          (writeSvcBackend i (of_nat cnt) ep s)
      else updateService_remote i eps cnt (cpEps @ [ep]) s)"

definition updateService ::
  "svcKey \<Rightarrow> Service \<Rightarrow> 32 word \<Rightarrow> Endpoint list \<Rightarrow> Syncer \<Rightarrow> (error + nat \<times> nat) \<times> Syncer" where
  "updateService skey sinfo i eps s =
     (let s1 = (if sessionAffinityType sinfo = ServiceAffinityClientIP
                then s\<lparr>stickyEps := (stickyEps s)(i \<mapsto> {})\<rparr> else s);
          l = updateService_local i eps 0 0 [] s1;
          r = updateService_remote i eps (fst l) (fst (snd (snd l))) (snd (snd (snd l)));
          cnt = fst r;
          local = fst (snd l);
          cpEps = fst (snd r);
          flags = (if nodeLocalInternal sinfo then {NATFlgInternalLocal} else {})
      in case writeSvc sinfo i cnt local flags (snd (snd r)) of
           (Some e, s4) \<Rightarrow> (Inl e, s4)
         | (None, s4) \<Rightarrow>
             (Inr (cnt, local),
              if hasSvcKeyExtra skey svcTypeNodePortRemote then s4
              else s4\<lparr>newEpsMap := (newEpsMap s4)(sname skey \<mapsto> cpEps)\<rparr>))"

definition applySvc :: "svcKey \<Rightarrow> Service \<Rightarrow> Endpoint list \<Rightarrow> Syncer \<Rightarrow> error option \<times> Syncer" where
  "applySvc skey sinfo eps s =
     (let a = (case prevSvcMap s skey of
                 None \<Rightarrow> newSvcID s
               | Some old \<Rightarrow> if ServicePortEqual (info_svc old) sinfo then (info_id old, s)
                             else newSvcID s)
      in case updateService skey sinfo (fst a) eps (snd a) of
           (Inl e, s2) \<Rightarrow> (Some e, s2)
         | (Inr (count, local), s2) \<Rightarrow>
             (None, s2\<lparr>newSvcMap := (newSvcMap s2)(skey \<mapsto>
                \<lparr>info_id = fst a, info_count = count, info_localCount = local, info_svc = sinfo\<rparr>)\<rparr>))"

subsection \<open>Derived entries and load-balancer source ranges\<close>

text \<open>
  The loop of \<^verbatim>\<open>getSvcNATKeyLBSrcRange\<close>: a range of the other address family is
  skipped; \<^verbatim>\<open>ip.CIDRFromIPNet\<close> dereferences a nil range that is not skipped.
\<close>

fun getSvcNATKeyLBSrcRange_loop ::
  "Syncer \<Rightarrow> netIP \<Rightarrow> 16 word \<Rightarrow> 8 word \<Rightarrow> IPNet option list \<Rightarrow> error + FrontendKey list" where
  "getSvcNATKeyLBSrcRange_loop s a p pr [] = Inr []"
| "getSvcNATKeyLBSrcRange_loop s a p pr (src # rest) =
     (if (if (case src of None \<Rightarrow> False | Some n \<Rightarrow> To4 (net_IP n) = NilIP)
          then ipFamily s \<noteq> 6 else ipFamily s = 6)
      then getSvcNATKeyLBSrcRange_loop s a p pr rest
      else
        (case src of
           None \<Rightarrow> Inl (Panic ''nil pointer dereference'')
         | Some n \<Rightarrow>
             (case getSvcNATKeyLBSrcRange_loop s a p pr rest of
                Inl e \<Rightarrow> Inl e
              | Inr keys \<Rightarrow> Inr (newFrontendKeySrc s a p pr (CIDRFromIPNet n) # keys))))"

definition getSvcNATKeyLBSrcRange :: "Syncer \<Rightarrow> Service \<Rightarrow> error + FrontendKey list" where
  "getSvcNATKeyLBSrcRange s svc =
     (case ProtoV1ToInt (protocol svc) of
        Inl e \<Rightarrow> Inl e
      | Inr proto \<Rightarrow>
          getSvcNATKeyLBSrcRange_loop s (clusterIP svc) (word_of_int (port svc)) proto
            (loadBalancerSourceRanges svc))"

definition writeLBSrcRangeSvcNATKeys ::
  "Service \<Rightarrow> 32 word \<Rightarrow> nat \<Rightarrow> nat \<Rightarrow> NATFlg set \<Rightarrow> Syncer \<Rightarrow> error option \<times> Syncer" where
  "writeLBSrcRangeSvcNATKeys svc svcID count local flags s =
     (if length (loadBalancerSourceRanges svc) = 0 then (None, s)
      else
        (case getSvcNATKeyLBSrcRange s svc of
           Inl e \<Rightarrow> (Some e, s)
         | Inr keys \<Rightarrow>
             (let val = NewNATValueWithFlags svcID (of_nat count) (of_nat local) (affinityTimeo svc) flags;
                  s1 = fold (\<lambda>key. setDesiredSvc key val) keys s
              in case getSvcNATKey s svc of
                   Inl e \<Rightarrow> (Some e, s1)
                 | Inr key \<Rightarrow> (None, setDesiredSvc key (NewNATValue svcID BlackHoleCount 0 0) s1))))"

text \<open>
  \<^verbatim>\<open>applyDerived\<close>. An error of \<^verbatim>\<open>writeLBSrcRangeSvcNATKeys\<close> is logged and dropped;
  a panic is not an error value and unwinds.
\<close>

definition applyDerived :: "ServicePortName \<Rightarrow> svcType \<Rightarrow> Service \<Rightarrow> Syncer \<Rightarrow> error option \<times> Syncer" where
  "applyDerived n t sinfo s =
     (case newSvcMap s (getSvcKey n None) of
        None \<Rightarrow> (Some (Err ''no ClusterIP for derived service type''), s)
      | Some svc \<Rightarrow>
          (let count = info_count svc;
               local = info_localCount svc;
               skey = getSvcKey n (getSvcKeyExtra t (clusterIP sinfo));
               flags = (if t = svcTypeExternalIP then {}
                        else (if nodeLocalExternal sinfo then {NATFlgExternalLocal} else {}) \<union>
                             (if nodeLocalInternal sinfo then {NATFlgInternalLocal} else {}));
               newInfo = \<lparr>info_id = info_id svc, info_count = count, info_localCount = local,
                          info_svc = sinfo\<rparr>
           in case writeSvc sinfo (info_id svc) count local flags s of
                (Some e, s1) \<Rightarrow> (Some e, s1)
              | (None, s1) \<Rightarrow>
                  (let r = (if t = svcTypeLoadBalancer \<or> t = svcTypeExternalIP
                            then writeLBSrcRangeSvcNATKeys sinfo (info_id svc) count local flags s1
                            else (None, s1))
                   in case fst r of
                        Some (Panic m) \<Rightarrow> (Some (Panic m), snd r)
                      | _ \<Rightarrow> (None, (snd r)\<lparr>newSvcMap := (newSvcMap (snd r))(skey \<mapsto> newInfo)\<rparr>))))"

subsection \<open>Concrete inputs\<close>

text \<open>
  A syncer of the given address family with empty kernel tables and no state, and a
  service with an address, a port and a protocol and nothing else set.
\<close>

definition emptySyncer :: "nat \<Rightarrow> Syncer" where
  "emptySyncer family =
     \<lparr>ipFamily = family,
      bpfSvcs = \<lparr>Dataplane = Map.empty, Desired = Map.empty\<rparr>,
      bpfEps = \<lparr>Dataplane = Map.empty, Desired = Map.empty\<rparr>,
      bpfAff = [],
      nextSvcID = 0,
      nodePortIPs = [],
      rt = (\<lambda>a. None),
      newSvcMap = Map.empty,
      newEpsMap = Map.empty,
      prevSvcMap = Map.empty,
      prevEpsMap = Map.empty,
      activeSvcsMap = None,
      activeEpsMap = None,
      synced = False,
      expFixupMisses = None,
      stickySvcs = Map.empty,
      stickyEps = Map.empty,
      triggerFn = False,
      excludedCIDRs = None,
      kernelLog = []\<rparr>"

definition plainService :: "netIP \<Rightarrow> int \<Rightarrow> Protocol \<Rightarrow> Service" where
  "plainService a p pr =
     \<lparr>clusterIP = a, port = p, protocol = pr, nodePort = 0,
      sessionAffinityType = ServiceAffinityNone, stickyMaxAgeSeconds = 0,
      externalIPs = [], loadBalancerSourceRanges = [], loadBalancerVIPs = [],
      healthCheckNodePort = 0, nodeLocalExternal = False, nodeLocalInternal = False,
      hintsAnnotation = [], excludeService = False, reapTerminatingUDP = False\<rparr>"

subsection \<open>What the loops of updateService compute\<close>

text \<open>
  The backend value \<^verbatim>\<open>writeSvcBackend\<close> writes for an endpoint, the ready endpoints
  of a list that are local and those that are not, and a run of \<^verbatim>\<open>writeSvcBackend\<close>
  over consecutive slots.
\<close>

definition backendOf :: "Endpoint \<Rightarrow> BackendValue" where
  "backendOf ep = \<lparr>bv_addr = ep_IP ep, bv_port = word_of_int (ep_Port ep)\<rparr>"

definition readyLocal :: "Endpoint list \<Rightarrow> Endpoint list" where
  "readyLocal eps = filter (\<lambda>e. ep_IsLocal e \<and> ep_IsReady e) eps"

definition readyRemote :: "Endpoint list \<Rightarrow> Endpoint list" where
  "readyRemote eps = filter (\<lambda>e. \<not> ep_IsLocal e \<and> ep_IsReady e) eps"

fun writeBackends :: "32 word \<Rightarrow> nat \<Rightarrow> Endpoint list \<Rightarrow> Syncer \<Rightarrow> Syncer" where
  "writeBackends i c [] s = s"
| "writeBackends i c (ep # eps) s = writeBackends i (Suc c) eps (writeSvcBackend i (of_nat c) ep s)"

text \<open>
  Scenario A of the specification, with the endpoints permuted: the service
  10.0.0.1:80/TCP and the endpoints 2.0.0.2 (remote), 2.0.0.1 (local), 2.0.0.3 (remote),
  all ready, on port 8080.
\<close>

definition mkEp :: "netIP \<Rightarrow> int \<Rightarrow> bool \<Rightarrow> bool \<Rightarrow> bool \<Rightarrow> Endpoint" where
  "mkEp a p isLocal isReady isTerminating =
     \<lparr>ep_IP = a, ep_Port = p, ep_IsLocal = isLocal, ep_IsReady = isReady,
      ep_IsTerminating = isTerminating, ep_ZoneHints = {}\<rparr>"

definition epsA :: "Endpoint list" where
  "epsA = [mkEp (IP4 0x02000002) 8080 False True False,
           mkEp (IP4 0x02000001) 8080 True True False,
           mkEp (IP4 0x02000003) 8080 False True False]"

definition svcA :: Service where
  "svcA = plainService (IP4 0x0A000001) 80 ProtocolTCP"

subsection \<open>The environment of one call\<close>

text \<open>
  What the syncer does not decide during a call: the order in which Go ranges over
  each map, which kernel writes fail, whether loading the kernel tables or iterating
  the affinity table fails, the clock, and the function
  \<^verbatim>\<open>ShouldAppendTopologyAwareEndpoint\<close> (of a file that is not among the sources).
\<close>

record Env =
  env_svcOrder :: "ServicePortName list"
  env_nodeOrder :: "netIP list"
  env_frontendOrder :: "FrontendKey list"
  env_backendOrder :: "BackendKey list"
  env_frontendFails :: "FrontendKey \<Rightarrow> bool"
  env_backendFails :: "BackendKey \<Rightarrow> bool"
  env_loadFails :: bool
  env_affIterFails :: "nat option"
  env_now :: "64 word"
  env_topology :: "string \<Rightarrow> string \<Rightarrow> string set \<Rightarrow> bool"

record DPSyncerState =
  SvcMap :: "ServicePortName \<rightharpoonup> Service"
  EpsMap :: "ServicePortName \<rightharpoonup> Endpoint list"
  NodeZone :: string

subsection \<open>The caching map's partial applies\<close>

text \<open>
  Modelled from the spec: \<^verbatim>\<open>ApplyDeletionsOnly\<close> and \<^verbatim>\<open>ApplyUpdatesOnly\<close> of the
  caching map (\<^verbatim>\<open>felix/cachingmap\<close> is not among the sources), section 4.1: the
  delta between the desired and the dataplane view is applied key by key, deletions
  (keys of the dataplane that are not desired) or updates (desired keys that are new or
  changed); a successful write updates the dataplane to match desired, a failed write
  leaves the dataplane untouched and surfaces the error. The functions visit the keys in
  the given order and return whether a write failed, the writes that succeeded, in
  order, and the map.
\<close>

fun ApplyDeletionsOnly ::
  "('k \<Rightarrow> bool) \<Rightarrow> 'k list \<Rightarrow> ('k, 'v) CachingMap \<Rightarrow> bool \<times> 'k list \<times> ('k, 'v) CachingMap" where
  "ApplyDeletionsOnly fails [] m = (False, [], m)"
| "ApplyDeletionsOnly fails (k # ks) m =
     (if Dataplane m k \<noteq> None \<and> Desired m k = None then
        (if fails k then
           (case ApplyDeletionsOnly fails ks m of (failed, done, m') \<Rightarrow> (True, done, m'))
         else
           (case ApplyDeletionsOnly fails ks (m\<lparr>Dataplane := (Dataplane m)(k := None)\<rparr>) of
              (failed, done, m') \<Rightarrow> (failed, k # done, m')))
      else ApplyDeletionsOnly fails ks m)"

fun ApplyUpdatesOnly ::
  "('k \<Rightarrow> bool) \<Rightarrow> 'k list \<Rightarrow> ('k, 'v) CachingMap \<Rightarrow> bool \<times> ('k \<times> 'v) list \<times> ('k, 'v) CachingMap" where
  "ApplyUpdatesOnly fails [] m = (False, [], m)"
| "ApplyUpdatesOnly fails (k # ks) m =
     (case Desired m k of
        None \<Rightarrow> ApplyUpdatesOnly fails ks m
      | Some v \<Rightarrow>
          if Dataplane m k = Some v then ApplyUpdatesOnly fails ks m
          else if fails k then
            (case ApplyUpdatesOnly fails ks m of (failed, done, m') \<Rightarrow> (True, done, m'))
          else
            (case ApplyUpdatesOnly fails ks (m\<lparr>Dataplane := (Dataplane m)(k \<mapsto> v)\<rparr>) of
               (failed, done, m') \<Rightarrow> (failed, (k, v) # done, m')))"

text \<open>The four calls of \<^verbatim>\<open>apply\<close>, each with its effect on the kernel log.\<close>

definition dataplaneError :: error where
  "dataplaneError = Err ''kernel map write failed''"

definition svcsApplyDeletionsOnly :: "Env \<Rightarrow> Syncer \<Rightarrow> error option \<times> Syncer" where
  "svcsApplyDeletionsOnly env s =
     (case ApplyDeletionsOnly (env_frontendFails env) (env_frontendOrder env) (bpfSvcs s) of
        (failed, done, m) \<Rightarrow>
          (if failed then Some dataplaneError else None,
           s\<lparr>bpfSvcs := m, kernelLog := kernelLog s @ map FrontendDelete done\<rparr>))"

definition epsApplyUpdatesOnly :: "Env \<Rightarrow> Syncer \<Rightarrow> error option \<times> Syncer" where
  "epsApplyUpdatesOnly env s =
     (case ApplyUpdatesOnly (env_backendFails env) (env_backendOrder env) (bpfEps s) of
        (failed, done, m) \<Rightarrow>
          (if failed then Some dataplaneError else None,
           s\<lparr>bpfEps := m, kernelLog := kernelLog s @ map (\<lambda>(k, v). BackendUpdate k v) done\<rparr>))"

definition svcsApplyUpdatesOnly :: "Env \<Rightarrow> Syncer \<Rightarrow> error option \<times> Syncer" where
  "svcsApplyUpdatesOnly env s =
     (case ApplyUpdatesOnly (env_frontendFails env) (env_frontendOrder env) (bpfSvcs s) of
        (failed, done, m) \<Rightarrow>
          (if failed then Some dataplaneError else None,
           s\<lparr>bpfSvcs := m, kernelLog := kernelLog s @ map (\<lambda>(k, v). FrontendUpdate k v) done\<rparr>))"

definition epsApplyDeletionsOnly :: "Env \<Rightarrow> Syncer \<Rightarrow> error option \<times> Syncer" where
  "epsApplyDeletionsOnly env s =
     (case ApplyDeletionsOnly (env_backendFails env) (env_backendOrder env) (bpfEps s) of
        (failed, done, m) \<Rightarrow>
          (if failed then Some dataplaneError else None,
           s\<lparr>bpfEps := m, kernelLog := kernelLog s @ map BackendDelete done\<rparr>))"

subsection \<open>Node-port expansion\<close>

text \<open>
  The loop of \<^verbatim>\<open>expandNodePorts\<close>, with the map \<^verbatim>\<open>ipToEp\<close> and the endpoints of
  \<^verbatim>\<open>miss\<close>; \<^verbatim>\<open>miss\<close> is nil as long as no endpoint has been added to it.
\<close>

fun expandNodePorts_loop ::
  "Lookup \<Rightarrow> Endpoint list \<Rightarrow> (netIP \<rightharpoonup> Endpoint list) \<Rightarrow> Endpoint list \<Rightarrow>
   (netIP \<rightharpoonup> Endpoint list) \<times> Endpoint list" where
  "expandNodePorts_loop rtLookup [] ipToEp missEps = (ipToEp, missEps)"
| "expandNodePorts_loop rtLookup (ep # eps) ipToEp missEps =
     (case rtLookup (ep_IP ep) of
        None \<Rightarrow> expandNodePorts_loop rtLookup eps ipToEp (missEps @ [ep])
      | Some r \<Rightarrow>
          if rt_FlagWorkload r \<and> \<not> rt_FlagLocal r then
            expandNodePorts_loop rtLookup eps
              (ipToEp(rt_NextHop r \<mapsto>
                 (case ipToEp (rt_NextHop r) of None \<Rightarrow> [] | Some l \<Rightarrow> l) @ [ep]))
              missEps
          else expandNodePorts_loop rtLookup eps ipToEp missEps)"

definition expandNodePorts ::
  "ServicePortName \<Rightarrow> Service \<Rightarrow> Endpoint list \<Rightarrow> int \<Rightarrow> Lookup \<Rightarrow>
   (netIP \<rightharpoonup> Endpoint list) \<times> expandMiss option" where
  "expandNodePorts n sinfo eps nport rtLookup =
     (case expandNodePorts_loop rtLookup eps Map.empty [] of
        (ipToEp, missEps) \<Rightarrow>
          (ipToEp,
           if missEps = [] then None
           else Some \<lparr>miss_sname = n, miss_sinfo = sinfo, miss_eps = missEps, miss_nport = nport\<rparr>))"

definition applyExpandedNP ::
  "ServicePortName \<Rightarrow> Service \<Rightarrow> Endpoint list \<Rightarrow> netIP \<Rightarrow> int \<Rightarrow> Syncer \<Rightarrow> error option \<times> Syncer" where
  "applyExpandedNP n sinfo eps node nport s =
     (let skey = getSvcKey n (getSvcKeyExtra svcTypeNodePortRemote node);
          si = sinfo\<lparr>clusterIP := node, port := nport\<rparr>
      in case applySvc skey si eps s of
           (Some e, s1) \<Rightarrow> (Some (Err ''apply NodePortRemote''), s1)
         | (None, s1) \<Rightarrow> (None, s1))"

text \<open>
  The loop of \<^verbatim>\<open>expandAndApplyNodePorts\<close> over the nodes of \<^verbatim>\<open>ipToEp\<close>; an error is
  logged and the loop goes on.
\<close>

fun expandAndApplyNodePorts_loop ::
  "ServicePortName \<Rightarrow> Service \<Rightarrow> int \<Rightarrow> (netIP \<rightharpoonup> Endpoint list) \<Rightarrow> netIP list \<Rightarrow> Syncer \<Rightarrow> Syncer" where
  "expandAndApplyNodePorts_loop n sinfo nport ipToEp [] s = s"
| "expandAndApplyNodePorts_loop n sinfo nport ipToEp (node # nodes) s =
     (case ipToEp node of
        None \<Rightarrow> expandAndApplyNodePorts_loop n sinfo nport ipToEp nodes s
      | Some neps \<Rightarrow>
          expandAndApplyNodePorts_loop n sinfo nport ipToEp nodes
            (snd (applyExpandedNP n sinfo neps node nport s)))"

definition expandAndApplyNodePorts ::
  "Env \<Rightarrow> ServicePortName \<Rightarrow> Service \<Rightarrow> Endpoint list \<Rightarrow> int \<Rightarrow> Lookup \<Rightarrow> Syncer \<Rightarrow>
   expandMiss option \<times> Syncer" where
  "expandAndApplyNodePorts env n sinfo eps nport rtLookup s =
     (case expandNodePorts n sinfo eps nport rtLookup of
        (ipToEp, miss) \<Rightarrow>
          (miss, expandAndApplyNodePorts_loop n sinfo nport ipToEp (remdups (env_nodeOrder env)) s))"

subsection \<open>The sync pass\<close>

text \<open>
  The loops of \<^verbatim>\<open>apply\<close> that call \<^verbatim>\<open>applyDerived\<close> for a list of derived service
  infos: an error is logged and the loop goes on; a panic unwinds.
\<close>

fun applyDerived_loop ::
  "ServicePortName \<Rightarrow> svcType \<Rightarrow> Service list \<Rightarrow> Syncer \<Rightarrow> error option \<times> Syncer" where
  "applyDerived_loop n t [] s = (None, s)"
| "applyDerived_loop n t (info # infos) s =
     (case applyDerived n t info s of
        (Some (Panic m), s1) \<Rightarrow> (Some (Panic m), s1)
      | (r, s1) \<Rightarrow> applyDerived_loop n t infos s1)"

text \<open>The endpoints \<^verbatim>\<open>apply\<close> keeps for a service: ready or terminating, and in the zone.\<close>

definition applyEps :: "Env \<Rightarrow> DPSyncerState \<Rightarrow> ServicePortName \<Rightarrow> Service \<Rightarrow> Endpoint list" where
  "applyEps env state n svc =
     filter (\<lambda>ep. (ep_IsReady ep \<or> ep_IsTerminating ep) \<and>
                   env_topology env (NodeZone state) (hintsAnnotation svc) (ep_ZoneHints ep))
       (case EpsMap state n of None \<Rightarrow> [] | Some eps \<Rightarrow> eps)"

text \<open>The node-port IPs \<^verbatim>\<open>apply\<close> programs for a service: all but the suppressed meta entry.\<close>

definition nodePortInfos :: "Syncer \<Rightarrow> Service \<Rightarrow> Service list" where
  "nodePortInfos s svc =
     map (\<lambda>npip. svc\<lparr>clusterIP := npip, port := nodePort svc\<rparr>)
       (filter (\<lambda>npip. \<not> (nodeLocalInternal svc \<and>
                  ((ipFamily s = 4 \<and> npip = podNPIP) \<or> (ipFamily s = 6 \<and> npip = podNPIPV6))))
          (nodePortIPs s))"

text \<open>
  The body of the loop of \<^verbatim>\<open>apply\<close> over \<^verbatim>\<open>state.SvcMap\<close>, for one service. It
  returns the error that ends \<^verbatim>\<open>apply\<close>, if any, and the list \<^verbatim>\<open>expNPMisses\<close>.
\<close>

definition applyService ::
  "Env \<Rightarrow> DPSyncerState \<Rightarrow> ServicePortName \<Rightarrow> Service \<Rightarrow> expandMiss list \<Rightarrow> Syncer \<Rightarrow>
   error option \<times> expandMiss list \<times> Syncer" where
  "applyService env state n svc misses s =
     (let eps = applyEps env state n svc
      in case applySvc (getSvcKey n None) svc eps s of
           (Some e, s1) \<Rightarrow> (Some e, misses, s1)
         | (None, s1) \<Rightarrow>
             (case applyDerived_loop n svcTypeLoadBalancer
                     (map (\<lambda>lbIP. svc\<lparr>clusterIP := lbIP\<rparr>)
                        (filter (\<lambda>lbIP. lbIP \<noteq> NilIP) (loadBalancerVIPs svc))) s1 of
                (Some e, s2) \<Rightarrow> (Some e, misses, s2)
              | (None, s2) \<Rightarrow>
                  (case applyDerived_loop n svcTypeExternalIP
                          (map (\<lambda>extIP. svc\<lparr>clusterIP := extIP\<rparr>) (externalIPs svc)) s2 of
                     (Some e, s3) \<Rightarrow> (Some e, misses, s3)
                   | (None, s3) \<Rightarrow>
                       if nodePort svc = 0 then (None, misses, s3)
                       else
                         (case applyDerived_loop n svcTypeNodePort (nodePortInfos s3 svc) s3 of
                            (Some e, s4) \<Rightarrow> (Some e, misses, s4)
                          | (None, s4) \<Rightarrow>
                              if nodeLocalInternal svc then
                                (case expandAndApplyNodePorts env n svc eps (nodePort svc) (rt s4) s4 of
                                   (None, s5) \<Rightarrow> (None, misses, s5)
                                 | (Some miss, s5) \<Rightarrow> (None, misses @ [miss], s5))
                              else (None, misses, s4)))))"

fun applyServices ::
  "Env \<Rightarrow> DPSyncerState \<Rightarrow> ServicePortName list \<Rightarrow> expandMiss list \<Rightarrow> Syncer \<Rightarrow>
   error option \<times> expandMiss list \<times> Syncer" where
  "applyServices env state [] misses s = (None, misses, s)"
| "applyServices env state (n # ns) misses s =
     (case SvcMap state n of
        None \<Rightarrow> applyServices env state ns misses s
      | Some svc \<Rightarrow>
          (case applyService env state n svc misses s of
             (Some e, misses1, s1) \<Rightarrow> (Some e, misses1, s1)
           | (None, misses1, s1) \<Rightarrow> applyServices env state ns misses1 s1))"

text \<open>
  \<^verbatim>\<open>runExpandNPFixup\<close> starts the fix-up task for the misses, when there are any (and
  stops one that is still running); the task itself is \<open>fixupTask\<close> below.
\<close>

definition runExpandNPFixup :: "expandMiss list \<Rightarrow> Syncer \<Rightarrow> Syncer" where
  "runExpandNPFixup misses s = (if length misses = 0 then s else s\<lparr>expFixupMisses := Some misses\<rparr>)"

definition StopExpandNPFixup :: "Syncer \<Rightarrow> Syncer" where
  "StopExpandNPFixup s = s\<lparr>expFixupMisses := None\<rparr>"

text \<open>
  The four ordered calls at the end of \<^verbatim>\<open>apply\<close>: any error is returned at once.
\<close>

definition applyPhases :: "Env \<Rightarrow> Syncer \<Rightarrow> error option \<times> Syncer" where
  "applyPhases env s =
     (case svcsApplyDeletionsOnly env s of
        (Some e, s1) \<Rightarrow> (Some e, s1)
      | (None, s1) \<Rightarrow>
          (case epsApplyUpdatesOnly env s1 of
             (Some e, s2) \<Rightarrow> (Some e, s2)
           | (None, s2) \<Rightarrow>
               (case svcsApplyUpdatesOnly env s2 of
                  (Some e, s3) \<Rightarrow> (Some e, s3)
                | (None, s3) \<Rightarrow> epsApplyDeletionsOnly env s3)))"

text \<open>
  The start of \<^verbatim>\<open>apply\<close>: the new maps are fresh and both desired views are emptied.
\<close>

definition applyReset :: "Syncer \<Rightarrow> Syncer" where
  "applyReset s =
     s\<lparr>newSvcMap := Map.empty, newEpsMap := Map.empty,
       bpfSvcs := Desired_DeleteAll (bpfSvcs s), bpfEps := Desired_DeleteAll (bpfEps s)\<rparr>"

text \<open>\<^verbatim>\<open>apply\<close> (the name is a keyword of Isabelle, hence the suffix).\<close>

definition apply0 :: "Env \<Rightarrow> DPSyncerState \<Rightarrow> Syncer \<Rightarrow> error option \<times> Syncer" where
  "apply0 env state s =
     (case applyServices env state (remdups (env_svcOrder env)) [] (applyReset s) of
        (Some e, misses, s1) \<Rightarrow> (Some e, s1)
      | (None, misses, s1) \<Rightarrow>
          (case applyPhases env s1 of
             (Some e, s2) \<Rightarrow> (Some e, s2)
           | (None, s2) \<Rightarrow> (None, runExpandNPFixup misses s2)))"

subsection \<open>Cold start\<close>

text \<open>
  \<^verbatim>\<open>loadOrigs\<close>: both caches are loaded from the kernel tables (which the
  \<open>Dataplane\<close> views stand for); the load can fail.
\<close>

definition loadOrigs :: "Env \<Rightarrow> Syncer \<Rightarrow> error option \<times> Syncer" where
  "loadOrigs env s = (if env_loadFails env then (Some (Err ''load failed''), s) else (None, s))"

text \<open>
  The body of the loop of \<^verbatim>\<open>svcMapToIPPortProtoMap\<close> for one service: the keys it
  enters into the index, in order (a later entry replaces an earlier one).
\<close>

definition svcRefKeys :: "Syncer \<Rightarrow> Service \<Rightarrow> error + FrontendKey list" where
  "svcRefKeys s svc =
     (case ProtoV1ToIntPanic (protocol svc) of
        Inl e \<Rightarrow> Inl e
      | Inr proto \<Rightarrow>
          Inr ([newFrontendKey s (clusterIP svc) (word_of_int (port svc)) proto] @
               (if nodePort svc \<noteq> 0 then
                  newFrontendKey s (clusterIP svc) (word_of_int (nodePort svc)) proto #
                  map (\<lambda>npIP. newFrontendKey s npIP (word_of_int (nodePort svc)) proto) (nodePortIPs s)
                else []) @
               map (\<lambda>extIP. newFrontendKey s extIP (word_of_int (port svc)) proto) (externalIPs svc)))"

fun svcMapToIPPortProtoMap_loop ::
  "Syncer \<Rightarrow> (ServicePortName \<rightharpoonup> Service) \<Rightarrow> ServicePortName list \<Rightarrow>
   (FrontendKey \<rightharpoonup> ServicePortName \<times> Service) \<Rightarrow>
   error + (FrontendKey \<rightharpoonup> ServicePortName \<times> Service)" where
  "svcMapToIPPortProtoMap_loop s svcs [] ref = Inr ref"
| "svcMapToIPPortProtoMap_loop s svcs (key # keys) ref =
     (case svcs key of
        None \<Rightarrow> svcMapToIPPortProtoMap_loop s svcs keys ref
      | Some svc \<Rightarrow>
          (case svcRefKeys s svc of
             Inl e \<Rightarrow> Inl e
           | Inr ks \<Rightarrow>
               svcMapToIPPortProtoMap_loop s svcs keys
                 (fold (\<lambda>k r. r(k \<mapsto> (key, svc))) ks ref)))"

definition svcMapToIPPortProtoMap ::
  "Env \<Rightarrow> Syncer \<Rightarrow> (ServicePortName \<rightharpoonup> Service) \<Rightarrow>
   error + (FrontendKey \<rightharpoonup> ServicePortName \<times> Service)" where
  "svcMapToIPPortProtoMap env s svcs =
     svcMapToIPPortProtoMap_loop s svcs (remdups (env_svcOrder env)) Map.empty"

text \<open>
  Modelled from the spec: \<^verbatim>\<open>NewEndpointInfo\<close> (of a file that is not among the
  sources) makes an endpoint of an address and a port; its other fields are unset.
\<close>

definition NewEndpointInfo :: "netIP \<Rightarrow> int \<Rightarrow> Endpoint" where
  "NewEndpointInfo a p =
     \<lparr>ep_IP = a, ep_Port = p, ep_IsLocal = False, ep_IsReady = False,
      ep_IsTerminating = False, ep_ZoneHints = {}\<rparr>"

text \<open>
  The inner loop of \<^verbatim>\<open>startupBuildPrev\<close> over the slots \<open>i, i + 1, ...\<close> (\<open>n\<close> of them
  are left): it returns whether a slot was missing and the endpoints read before that.
\<close>

fun startupReadEps ::
  "(BackendKey \<rightharpoonup> BackendValue) \<Rightarrow> 32 word \<Rightarrow> nat \<Rightarrow> nat \<Rightarrow> Endpoint list \<Rightarrow> bool \<times> Endpoint list" where
  "startupReadEps dp i k 0 acc = (False, acc)"
| "startupReadEps dp i k (Suc n) acc =
     (case dp (NewNATBackendKey i (of_nat k)) of
        None \<Rightarrow> (True, acc)
      | Some ep \<Rightarrow>
          startupReadEps dp i (Suc k) n (acc @ [NewEndpointInfo (bv_addr ep) (uint (bv_port ep))]))"

text \<open>
  The function \<^verbatim>\<open>startupBuildPrev\<close> passes to the iterator of the dataplane frontends,
  for one frontend; \<open>inconsistent\<close> is the variable of that name.
\<close>

definition startupBuildPrev_step ::
  "DPSyncerState \<Rightarrow> (FrontendKey \<rightharpoonup> ServicePortName \<times> Service) \<Rightarrow> FrontendKey \<Rightarrow> FrontendValue \<Rightarrow>
   bool \<times> Syncer \<Rightarrow> error + bool \<times> Syncer" where
  "startupBuildPrev_step state svcRef svck svcv a =
     (case svcRef svck of
        None \<Rightarrow> Inr a
      | Some (xsvc, xinfo) \<Rightarrow>
          (case matchBpfSvc (snd a) svck xsvc xinfo of
             Inl e \<Rightarrow> Inl e
           | Inr None \<Rightarrow> Inr a
           | Inr (Some svckey) \<Rightarrow>
               (case SvcMap state (sname svckey) of
                  None \<Rightarrow> Inl (Panic ''interface conversion'')
                | Some svc \<Rightarrow>
                    (let s = snd a;
                         i = fv_id svcv;
                         count = unat (fv_count svcv);
                         s1 = s\<lparr>prevSvcMap := (prevSvcMap s)(svckey \<mapsto>
                                  \<lparr>info_id = i, info_count = count,
                                   info_localCount = unat (fv_localCount svcv), info_svc = svc\<rparr>)\<rparr>;
                         s2 = (if i \<ge> nextSvcID s1 then s1\<lparr>nextSvcID := i + 1\<rparr> else s1)
                     in if extra svckey \<noteq> None then Inr (fst a, s2)
                        else
                          (let s3 = (if count > 0
                                     then s2\<lparr>prevEpsMap := (prevEpsMap s2)(sname svckey \<mapsto> [])\<rparr>
                                     else s2);
                               r = startupReadEps (Dataplane (bpfEps s3)) i 0 count []
                           in Inr (fst a \<or> fst r,
                                   if snd r = [] then s3
                                   else s3\<lparr>prevEpsMap := (prevEpsMap s3)(sname svckey \<mapsto> snd r)\<rparr>))))))"

fun startupBuildPrev_loop ::
  "DPSyncerState \<Rightarrow> (FrontendKey \<rightharpoonup> ServicePortName \<times> Service) \<Rightarrow> FrontendKey list \<Rightarrow>
   bool \<times> Syncer \<Rightarrow> error + bool \<times> Syncer" where
  "startupBuildPrev_loop state svcRef [] a = Inr a"
| "startupBuildPrev_loop state svcRef (svck # ks) a =
     (case Dataplane (bpfSvcs (snd a)) svck of
        None \<Rightarrow> startupBuildPrev_loop state svcRef ks a
      | Some svcv \<Rightarrow>
          (case startupBuildPrev_step state svcRef svck svcv a of
             Inl e \<Rightarrow> Inl e
           | Inr a1 \<Rightarrow> startupBuildPrev_loop state svcRef ks a1))"

definition inconsistentError :: error where
  "inconsistentError =
     Err ''found inconsistencies in existing BPF maps, will rewrite maps from scratch''"

text \<open>
  \<^verbatim>\<open>startupBuildPrev\<close>. A panic leaves the state as it was when the panic was raised;
  the model returns the state of the call.
\<close>

definition startupBuildPrev :: "Env \<Rightarrow> DPSyncerState \<Rightarrow> Syncer \<Rightarrow> error option \<times> Syncer" where
  "startupBuildPrev env state s =
     (case svcMapToIPPortProtoMap env s (SvcMap state) of
        Inl e \<Rightarrow> (Some e, s)
      | Inr svcRef \<Rightarrow>
          (case startupBuildPrev_loop state svcRef (remdups (env_frontendOrder env)) (False, s) of
             Inl e \<Rightarrow> (Some e, s)
           | Inr (inconsistent, s1) \<Rightarrow>
               (if inconsistent then Some inconsistentError else None, s1)))"

text \<open>
  \<^verbatim>\<open>startupSync\<close>: an error of \<^verbatim>\<open>startupBuildPrev\<close> is logged and nil is returned.
\<close>

definition startupSync :: "Env \<Rightarrow> DPSyncerState \<Rightarrow> Syncer \<Rightarrow> error option \<times> Syncer" where
  "startupSync env state s =
     (case loadOrigs env s of
        (Some e, s1) \<Rightarrow> (Some e, s1)
      | (None, s1) \<Rightarrow>
          (case startupBuildPrev env state s1 of
             (Some (Panic m), s2) \<Rightarrow> (Some (Panic m), s2)
           | (r, s2) \<Rightarrow> (None, s2)))"

subsection \<open>The affinity sweep\<close>

datatype IteratorAction = IterNone | IterDelete

text \<open>
  Modelled from the spec: \<^verbatim>\<open>Iter\<close> of the kernel map surface (package \<^verbatim>\<open>maps\<close> is
  not among the sources) calls the function on every record and deletes the record when
  the function returns \<^verbatim>\<open>IterDelete\<close>. The iteration can fail: \<open>Some n\<close> is a failure
  after \<open>n\<close> records were visited.
\<close>

definition Iter ::
  "nat option \<Rightarrow> ('k \<Rightarrow> 'v \<Rightarrow> IteratorAction) \<Rightarrow> ('k \<times> 'v) list \<Rightarrow> error option \<times> ('k \<times> 'v) list" where
  "Iter failsAfter f m =
     (case failsAfter of
        None \<Rightarrow> (None, filter (\<lambda>(k, v). f k v = IterNone) m)
      | Some n \<Rightarrow>
          (Some (Err ''iteration failed''),
           filter (\<lambda>(k, v). f k v = IterNone) (take n m) @ drop n m))"

text \<open>The function \<^verbatim>\<open>cleanupSticky\<close> passes to the iterator; the comparison is signed.\<close>

definition cleanupSticky_step :: "Syncer \<Rightarrow> 64 word \<Rightarrow> AffinityKey \<Rightarrow> AffinityValue \<Rightarrow> IteratorAction" where
  "cleanupSticky_step s now key val =
     (case stickySvcs s (ak_frontend key) of
        None \<Rightarrow> IterDelete
      | Some fend \<Rightarrow>
          if (case stickyEps s (sticky_id fend) of
                None \<Rightarrow> True
              | Some backends \<Rightarrow> av_backend val \<notin> backends)
          then IterDelete
          else if sint (sticky_timeo fend) < sint (now - av_timestamp val) then IterDelete
          else IterNone)"

definition cleanupSticky :: "Env \<Rightarrow> Syncer \<Rightarrow> error option \<times> Syncer" where
  "cleanupSticky env s =
     (case Iter (env_affIterFails env) (cleanupSticky_step s (env_now env)) (bpfAff s) of
        (Some e, aff) \<Rightarrow> (Some (Err ''NAT affinity map iterator failed''), s\<lparr>bpfAff := aff\<rparr>)
      | (None, aff) \<Rightarrow> (None, s\<lparr>bpfAff := aff\<rparr>))"

subsection \<open>Apply\<close>

text \<open>
  The first statement of \<^verbatim>\<open>Apply\<close>: the cold-start reconstruction on the first
  call, and on a later call the stop of the fix-up task and the promotion of the new
  maps to the previous ones.
\<close>

definition ApplyStart :: "Env \<Rightarrow> DPSyncerState \<Rightarrow> Syncer \<Rightarrow> error option \<times> Syncer" where
  "ApplyStart env state s =
     (if \<not> synced s then startupSync env state s
      else (None, (StopExpandNPFixup s)\<lparr>prevSvcMap := newSvcMap s, prevEpsMap := newEpsMap s\<rparr>))"

text \<open>
  \<^verbatim>\<open>Apply\<close>. The sticky maps are allocated after the first statement, and the
  deferred function resets them on every return after that.
\<close>

definition Apply :: "Env \<Rightarrow> DPSyncerState \<Rightarrow> Syncer \<Rightarrow> error option \<times> Syncer" where
  "Apply env state s =
     (case ApplyStart env state s of
        (Some e, s0) \<Rightarrow> (Some e, s0)
      | (None, s0) \<Rightarrow>
          (case apply0 env state (s0\<lparr>stickySvcs := Map.empty, stickyEps := Map.empty\<rparr>) of
             (Some e, s1) \<Rightarrow> (Some e, s1\<lparr>stickySvcs := Map.empty, stickyEps := Map.empty\<rparr>)
           | (None, s1) \<Rightarrow>
               (case cleanupSticky env (s1\<lparr>synced := True\<rparr>) of
                  (r, s2) \<Rightarrow> (r, s2\<lparr>stickySvcs := Map.empty, stickyEps := Map.empty\<rparr>))))"

subsection \<open>The conntrack query surface\<close>

definition servicePortToIPPortProto :: "Service \<Rightarrow> error + ipPortProto" where
  "servicePortToIPPortProto sp =
     (case ProtoV1ToIntPanic (protocol sp) of
        Inl e \<Rightarrow> Inl e
      | Inr pn \<Rightarrow> Inr \<lparr>ipp_ip = clusterIP sp, ipp_port = port sp, ipp_proto = pn\<rparr>)"

text \<open>
  \<^verbatim>\<open>addActiveEps\<close>; the active maps are the ones \<^verbatim>\<open>ConntrackScanStart\<close> has made.
\<close>

definition addActiveEps ::
  "32 word \<Rightarrow> Service \<Rightarrow> Endpoint list \<Rightarrow>
   (ipPortProto \<rightharpoonup> 32 word) \<times> (32 word \<rightharpoonup> ipPort set) \<Rightarrow>
   error + (ipPortProto \<rightharpoonup> 32 word) \<times> (32 word \<rightharpoonup> ipPort set)" where
  "addActiveEps i svc eps a =
     (case servicePortToIPPortProto svc of
        Inl e \<Rightarrow> Inl e
      | Inr svcKey \<Rightarrow>
          Inr ((fst a)(svcKey \<mapsto> i),
               if length eps = 0 then snd a
               else (snd a)(i \<mapsto>
                 (\<lambda>ep. \<lparr>ipp_ip = ep_IP ep, ipp_port = ep_Port ep\<rparr>) `
                   set (filter (\<lambda>ep. \<not> (ep_IsTerminating ep \<and> protocol svc = ProtocolUDP \<and>
                                          reapTerminatingUDP svc)) eps))))"

fun ConntrackScanStart_loop ::
  "Syncer \<Rightarrow> svcKey list \<Rightarrow> (ipPortProto \<rightharpoonup> 32 word) \<times> (32 word \<rightharpoonup> ipPort set) \<Rightarrow>
   error + (ipPortProto \<rightharpoonup> 32 word) \<times> (32 word \<rightharpoonup> ipPort set)" where
  "ConntrackScanStart_loop s [] a = Inr a"
| "ConntrackScanStart_loop s (skey # skeys) a =
     (case newSvcMap s skey of
        None \<Rightarrow> ConntrackScanStart_loop s skeys a
      | Some sinfo \<Rightarrow>
          if info_count sinfo = 0 then ConntrackScanStart_loop s skeys a
          else
            (case (if isSvcKeyDerived skey then addActiveEps (info_id sinfo) (info_svc sinfo) [] a
                   else addActiveEps (info_id sinfo) (info_svc sinfo)
                          (case newEpsMap s (sname skey) of None \<Rightarrow> [] | Some eps \<Rightarrow> eps) a) of
               Inl e \<Rightarrow> Inl e
             | Inr a1 \<Rightarrow> ConntrackScanStart_loop s skeys a1))"

text \<open>
  \<^verbatim>\<open>ConntrackScanStart\<close>, with the order in which the source ranges over
  \<^verbatim>\<open>newSvcMap\<close>.
\<close>

definition ConntrackScanStart :: "svcKey list \<Rightarrow> Syncer \<Rightarrow> error + Syncer" where
  "ConntrackScanStart order s =
     (case ConntrackScanStart_loop s (remdups order) (Map.empty, Map.empty) of
        Inl e \<Rightarrow> Inl e
      | Inr a \<Rightarrow> Inr (s\<lparr>activeSvcsMap := Some (fst a), activeEpsMap := Some (snd a)\<rparr>))"

definition ConntrackScanEnd :: "Syncer \<Rightarrow> Syncer" where
  "ConntrackScanEnd s = s\<lparr>activeSvcsMap := None, activeEpsMap := None\<rparr>"

definition activeSvcsLookup :: "Syncer \<Rightarrow> ipPortProto \<Rightarrow> 32 word option" where
  "activeSvcsLookup s k = (case activeSvcsMap s of None \<Rightarrow> None | Some m \<Rightarrow> m k)"

definition conntrackGetSvcID :: "Syncer \<Rightarrow> netIP \<Rightarrow> 16 word \<Rightarrow> 8 word \<Rightarrow> 32 word option" where
  "conntrackGetSvcID s a p proto =
     (case activeSvcsLookup s \<lparr>ipp_ip = a, ipp_port = uint p, ipp_proto = proto\<rparr> of
        Some i \<Rightarrow> Some i
      | None \<Rightarrow>
          activeSvcsLookup s
            \<lparr>ipp_ip = (if ipFamily s = 6 then podNPIPV6 else podNPIP), ipp_port = uint p,
             ipp_proto = proto\<rparr>)"

definition ConntrackDestIsService :: "Syncer \<Rightarrow> netIP \<Rightarrow> 16 word \<Rightarrow> 8 word \<Rightarrow> bool" where
  "ConntrackDestIsService s a p proto \<longleftrightarrow> conntrackGetSvcID s a p proto \<noteq> None"

definition ConntrackFrontendHasBackend ::
  "Syncer \<Rightarrow> netIP \<Rightarrow> 16 word \<Rightarrow> netIP \<Rightarrow> 16 word \<Rightarrow> 8 word \<Rightarrow> bool" where
  "ConntrackFrontendHasBackend s a p backendIP backendPort proto \<longleftrightarrow>
     (case conntrackGetSvcID s a p proto of
        None \<Rightarrow> False
      | Some i \<Rightarrow>
          (case (case activeEpsMap s of None \<Rightarrow> None | Some m \<Rightarrow> m i) of
             None \<Rightarrow> False
           | Some backends \<Rightarrow> \<lparr>ipp_ip = backendIP, ipp_port = uint backendPort\<rparr> \<in> backends))"

subsection \<open>The node-port fix-up task\<close>

text \<open>
  The loop over the misses in the function \<^verbatim>\<open>runExpandNPFixup\<close> passes to
  \<^verbatim>\<open>WaitAfter\<close>, with the variables \<^verbatim>\<open>missesChanged\<close> and \<^verbatim>\<open>again\<close>.
\<close>

fun fixupExpand ::
  "Lookup \<Rightarrow> expandMiss list \<Rightarrow> bool \<Rightarrow> expandMiss list \<Rightarrow> bool \<times> expandMiss list" where
  "fixupExpand lk [] missesChanged again = (missesChanged, again)"
| "fixupExpand lk (m # ms) missesChanged again =
     (case snd (expandNodePorts (miss_sname m) (miss_sinfo m) (miss_eps m) (miss_nport m) lk) of
        Some miss \<Rightarrow>
          fixupExpand lk ms (if miss_eps m \<noteq> miss_eps miss then True else missesChanged)
            (again @ [miss])
      | None \<Rightarrow> fixupExpand lk ms True again)"

text \<open>
  That function, for the misses of the task and the lookup of this wake-up: whether it
  calls \<^verbatim>\<open>triggerFn\<close>, the new value of \<^verbatim>\<open>misses\<close>, and what it returns
  (\<^verbatim>\<open>len(misses) == 0\<close>).
\<close>

definition fixupWake :: "Syncer \<Rightarrow> expandMiss list \<Rightarrow> Lookup \<Rightarrow> bool \<times> expandMiss list \<times> bool" where
  "fixupWake s misses lk =
     (case fixupExpand lk misses False [] of
        (missesChanged, again) \<Rightarrow> (missesChanged \<and> triggerFn s, again, length again = 0))"

datatype fixupEnd = FixupCompleted | FixupCancelled "expandMiss list"

text \<open>
  Modelled from the spec: \<^verbatim>\<open>WaitAfter\<close> of the routes surface blocks until the route
  table next changes or the context is cancelled, then invokes the function with a
  fresh lookup, and loops until the function returns true. The task is run over the
  lookups of the successive wake-ups before the cancellation; it returns, for each
  wake-up it handled, whether the trigger was called, and how it ended. After
  \<^verbatim>\<open>WaitAfter\<close> the task returns: either no miss is left or the context is cancelled.
\<close>

fun fixupTask :: "Syncer \<Rightarrow> expandMiss list \<Rightarrow> Lookup list \<Rightarrow> bool list \<times> fixupEnd" where
  "fixupTask s misses [] = ([], FixupCancelled misses)"
| "fixupTask s misses (lk # lks) =
     (case fixupWake s misses lk of
        (triggered, again, stop) \<Rightarrow>
          if stop then ([triggered], FixupCompleted)
          else (case fixupTask s again lks of (ts, e) \<Rightarrow> (triggered # ts, e)))"

subsection \<open>Stale affinity records, in the words of the specification\<close>

text \<open>
  Section 4.4.1: a record is deleted when its frontend-affinity projection is unknown
  among this pass's sticky services, or its backend is unknown for that service id, or
  \<open>now - timestamp > timeout\<close> (durations are signed 64-bit numbers).
\<close>

definition staleAffinity :: "Syncer \<Rightarrow> 64 word \<Rightarrow> AffinityKey \<Rightarrow> AffinityValue \<Rightarrow> bool" where
  "staleAffinity s now key val \<longleftrightarrow>
     (case stickySvcs s (ak_frontend key) of
        None \<Rightarrow> True
      | Some fend \<Rightarrow>
          av_backend val \<notin> (case stickyEps s (sticky_id fend) of None \<Rightarrow> {} | Some b \<Rightarrow> b) \<or>
          sint (now - av_timestamp val) > sint (sticky_timeo fend))"

subsection \<open>Concrete inputs for the affinity sweep\<close>

text \<open>
  An environment in which nothing fails and the clock reads 100 s, an empty desired
  state, and a syncer whose only sticky service 10.0.0.1:80/TCP has id 1, a timeout of
  10 s and the backend 2.0.0.1:8080. Of the four affinity records the first is fresh,
  the second is for an unknown frontend, the third for an unknown backend, and the
  fourth is 20 s old.
\<close>

definition quietEnv :: Env where
  "quietEnv =
     \<lparr>env_svcOrder = [], env_nodeOrder = [], env_frontendOrder = [], env_backendOrder = [],
      env_frontendFails = (\<lambda>k. False), env_backendFails = (\<lambda>k. False),
      env_loadFails = False, env_affIterFails = None, env_now = 100000000000,
      env_topology = (\<lambda>zone hints zones. True)\<rparr>"

definition noState :: DPSyncerState where
  "noState = \<lparr>SvcMap = Map.empty, EpsMap = Map.empty, NodeZone = []\<rparr>"

definition affFrontend :: FrontEndAffinityKey where
  "affFrontend = \<lparr>fak_addr = IP4 0x0A000001, fak_port = 80, fak_proto = 6\<rparr>"

definition affBackend :: BackendValue where
  "affBackend = \<lparr>bv_addr = IP4 0x02000001, bv_port = 8080\<rparr>"

definition affRecord :: "netIP \<Rightarrow> 16 word \<Rightarrow> 32 word \<Rightarrow> 64 word \<Rightarrow> AffinityKey \<times> AffinityValue" where
  "affRecord client fport backend ts =
     (\<lparr>ak_client = client, ak_frontend = affFrontend\<lparr>fak_port := fport\<rparr>\<rparr>,
      \<lparr>av_timestamp = ts, av_backend = affBackend\<lparr>bv_addr := IP4 backend\<rparr>\<rparr>)"

definition stickySyncer :: Syncer where
  "stickySyncer =
     (emptySyncer 4)
       \<lparr>synced := True,
        stickySvcs := [affFrontend \<mapsto> \<lparr>sticky_id = 1, sticky_timeo = seconds 10\<rparr>],
        stickyEps := [1 \<mapsto> {affBackend}],
        bpfAff := [affRecord (IP4 1) 80 0x02000001 95000000000,
                   affRecord (IP4 2) 81 0x02000001 95000000000,
                   affRecord (IP4 3) 80 0x02000009 95000000000,
                   affRecord (IP4 4) 80 0x02000001 80000000000]\<rparr>"

subsection \<open>Invariants of the sync pass\<close>

text \<open>
  The fields the sync pass never writes; the growth of the desired backends; a frontend
  value references the slots \<open>0 .. count - 1\<close> of its id unless its count is the
  black-hole value; the desired state is closed when every desired frontend has its
  slots among the desired backends, and so is the new service map; the state of
  \<^verbatim>\<open>updateService\<close> after its two loops, the count it returns, and the id
  \<^verbatim>\<open>applySvc\<close> uses; every id of the previous and the new service map is below the
  counter.
\<close>

definition syncFrame :: "Syncer \<Rightarrow> Syncer \<Rightarrow> bool" where
  "syncFrame s s' \<longleftrightarrow>
     ipFamily s' = ipFamily s \<and> nodePortIPs s' = nodePortIPs s \<and> rt s' = rt s \<and>
     excludedCIDRs s' = excludedCIDRs s \<and> prevSvcMap s' = prevSvcMap s \<and>
     prevEpsMap s' = prevEpsMap s \<and> Dataplane (bpfSvcs s') = Dataplane (bpfSvcs s) \<and>
     Dataplane (bpfEps s') = Dataplane (bpfEps s) \<and> kernelLog s' = kernelLog s \<and>
     bpfAff s' = bpfAff s \<and> synced s' = synced s \<and> triggerFn s' = triggerFn s \<and>
     expFixupMisses s' = expFixupMisses s \<and> activeSvcsMap s' = activeSvcsMap s \<and>
     activeEpsMap s' = activeEpsMap s"

definition desiredGrows :: "Syncer \<Rightarrow> Syncer \<Rightarrow> bool" where
  "desiredGrows s s' \<longleftrightarrow> (\<forall>k. Desired (bpfEps s) k \<noteq> None \<longrightarrow> Desired (bpfEps s') k \<noteq> None)"

definition slotsPresent :: "(BackendKey \<rightharpoonup> BackendValue) \<Rightarrow> 32 word \<Rightarrow> 32 word \<Rightarrow> bool" where
  "slotsPresent be i c \<longleftrightarrow> (\<forall>x. x < c \<longrightarrow> be (NewNATBackendKey i x) \<noteq> None)"

definition referencesOK :: "(BackendKey \<rightharpoonup> BackendValue) \<Rightarrow> FrontendValue \<Rightarrow> bool" where
  "referencesOK be v \<longleftrightarrow> fv_count v = BlackHoleCount \<or> slotsPresent be (fv_id v) (fv_count v)"

definition closedDesired :: "Syncer \<Rightarrow> bool" where
  "closedDesired s \<longleftrightarrow>
     (\<forall>k v. Desired (bpfSvcs s) k = Some v \<longrightarrow> referencesOK (Desired (bpfEps s)) v)"

definition svcMapClosed :: "Syncer \<Rightarrow> bool" where
  "svcMapClosed s \<longleftrightarrow>
     (\<forall>k info. newSvcMap s k = Some info \<longrightarrow>
        slotsPresent (Desired (bpfEps s)) (info_id info) (of_nat (info_count info)))"

definition syncInv :: "Syncer \<Rightarrow> bool" where
  "syncInv s \<longleftrightarrow> closedDesired s \<and> svcMapClosed s"

definition updateService_backends :: "32 word \<Rightarrow> Service \<Rightarrow> Endpoint list \<Rightarrow> Syncer \<Rightarrow> Syncer" where
  "updateService_backends i sinfo eps s =
     writeBackends i (length (readyLocal eps)) (readyRemote eps)
       (writeBackends i 0 (readyLocal eps)
          (if sessionAffinityType sinfo = ServiceAffinityClientIP
           then s\<lparr>stickyEps := (stickyEps s)(i \<mapsto> {})\<rparr> else s))"

definition updateService_cnt :: "Endpoint list \<Rightarrow> nat" where
  "updateService_cnt eps = length (readyLocal eps) + length (readyRemote eps)"

definition applySvc_reuses :: "svcKey \<Rightarrow> Service \<Rightarrow> Syncer \<Rightarrow> bool" where
  "applySvc_reuses skey sinfo s \<longleftrightarrow>
     (case prevSvcMap s skey of None \<Rightarrow> False | Some old \<Rightarrow> ServicePortEqual (info_svc old) sinfo)"

definition applySvc_id :: "svcKey \<Rightarrow> Service \<Rightarrow> Syncer \<Rightarrow> 32 word" where
  "applySvc_id skey sinfo s =
     (case prevSvcMap s skey of
        None \<Rightarrow> nextSvcID s
      | Some old \<Rightarrow> if ServicePortEqual (info_svc old) sinfo then info_id old else nextSvcID s)"

definition idsBelowNext :: "Syncer \<Rightarrow> bool" where
  "idsBelowNext s \<longleftrightarrow>
     (\<forall>info \<in> ran (prevSvcMap s) \<union> ran (newSvcMap s). info_id info < nextSvcID s)"

text \<open>
  One step of the sync pass: the frame is kept, the desired backends grow, and the
  invariant is kept.
\<close>

definition syncStep :: "Syncer \<Rightarrow> Syncer \<Rightarrow> bool" where
  "syncStep s s' \<longleftrightarrow> syncFrame s s' \<and> desiredGrows s s' \<and> (syncInv s \<longrightarrow> syncInv s')"

subsection \<open>A syncer with a previous service map\<close>

text \<open>The service of scenario A was applied before with id 7; the counter is at 8.\<close>

definition prevSyncer :: Syncer where
  "prevSyncer =
     (emptySyncer 4)
       \<lparr>prevSvcMap := [getSvcKey ''default/a:http'' None \<mapsto>
          \<lparr>info_id = 7, info_count = 3, info_localCount = 1, info_svc = svcA\<rparr>],
        nextSvcID := 8\<rparr>"

subsection \<open>A kernel with a missing backend slot\<close>

text \<open>
  The desired state is scenario A. The kernel's frontend table holds the primary
  frontend of the service with id 7 and count 1; the backend table is empty, so slot
  (7, 0) is missing.
\<close>

definition keyA :: FrontendKey where
  "keyA = \<lparr>fk_addr = IP4 0x0A000001, fk_port = 80, fk_proto = 6, fk_src = V4CIDR 0 0\<rparr>"

definition brokenKernel :: Syncer where
  "brokenKernel =
     (emptySyncer 4)
       \<lparr>bpfSvcs := \<lparr>Dataplane = [keyA \<mapsto> NewNATValue 7 1 0 0], Desired = Map.empty\<rparr>\<rparr>"

definition stateA :: DPSyncerState where
  "stateA = \<lparr>SvcMap = [''default/a:http'' \<mapsto> svcA], EpsMap = [''default/a:http'' \<mapsto> epsA],
             NodeZone = []\<rparr>"

definition envA :: Env where
  "envA = quietEnv\<lparr>env_svcOrder := [''default/a:http''], env_frontendOrder := [keyA]\<rparr>"

subsection \<open>The active views, in terms of the new maps\<close>

text \<open>
  The endpoints \<^verbatim>\<open>ConntrackScanStart\<close> passes to \<^verbatim>\<open>addActiveEps\<close> for a service key,
  the set \<^verbatim>\<open>addActiveEps\<close> stores for a service and a list of endpoints, and the
  entries the scan does not skip. Then: the service of scenario A applied with one ready
  endpoint and one that is terminating and not ready, the state after the scan of it,
  and the same service applied without any endpoint.
\<close>

definition entryEps :: "Syncer \<Rightarrow> svcKey \<Rightarrow> Endpoint list" where
  "entryEps s skey =
     (if isSvcKeyDerived skey then []
      else case newEpsMap s (sname skey) of None \<Rightarrow> [] | Some eps \<Rightarrow> eps)"

definition activeSet :: "Service \<Rightarrow> Endpoint list \<Rightarrow> ipPort set" where
  "activeSet svc eps =
     (\<lambda>ep. \<lparr>ipp_ip = ep_IP ep, ipp_port = ep_Port ep\<rparr>) `
       set (filter (\<lambda>ep. \<not> (ep_IsTerminating ep \<and> protocol svc = ProtocolUDP \<and>
                              reapTerminatingUDP svc)) eps)"

definition activeEntry :: "Syncer \<Rightarrow> svcKey \<Rightarrow> svcInfo \<Rightarrow> bool" where
  "activeEntry s skey sinfo \<longleftrightarrow> newSvcMap s skey = Some sinfo \<and> info_count sinfo \<noteq> 0"

definition epsT :: "Endpoint list" where
  "epsT = [mkEp (IP4 0x02000001) 8080 False True False,
           mkEp (IP4 0x02000002) 8080 False False True]"

definition appliedT :: Syncer where
  "appliedT = snd (applySvc (getSvcKey ''default/a:http'' None) svcA epsT (emptySyncer 4))"

definition scannedT :: Syncer where
  "scannedT =
     appliedT\<lparr>activeSvcsMap := Some [\<lparr>ipp_ip = IP4 0x0A000001, ipp_port = 80, ipp_proto = 6\<rparr> \<mapsto> 0],
              activeEpsMap := Some [0 \<mapsto> {\<lparr>ipp_ip = IP4 0x02000001, ipp_port = 8080\<rparr>,
                                          \<lparr>ipp_ip = IP4 0x02000002, ipp_port = 8080\<rparr>}]\<rparr>"

definition appliedZero :: Syncer where
  "appliedZero = snd (applySvc (getSvcKey ''default/a:http'' None) svcA [] (emptySyncer 4))"

subsection \<open>One wake-up of the fix-up task, miss by miss\<close>

text \<open>
  The miss \<^verbatim>\<open>expandNodePorts\<close> returns for a miss under a lookup (none when every
  endpoint has a route), and whether the miss changed: it was resolved, or its endpoint
  set is not the one it had. Then a miss with two endpoints, a lookup that has a route
  to a remote workload for the first endpoint only, one that has such a route for every
  address, and the miss that is left under the first lookup.
\<close>

definition missAfter :: "Lookup \<Rightarrow> expandMiss \<Rightarrow> expandMiss option" where
  "missAfter lk m = snd (expandNodePorts (miss_sname m) (miss_sinfo m) (miss_eps m) (miss_nport m) lk)"

definition missChanged :: "Lookup \<Rightarrow> expandMiss \<Rightarrow> bool" where
  "missChanged lk m \<longleftrightarrow>
     (case missAfter lk m of None \<Rightarrow> True | Some miss \<Rightarrow> miss_eps m \<noteq> miss_eps miss)"

definition missA :: expandMiss where
  "missA = \<lparr>miss_sname = ''default/a:http'', miss_sinfo = svcA\<lparr>nodePort := 31000, nodeLocalInternal := True\<rparr>,
            miss_eps = [mkEp (IP4 0x02000002) 8080 False True False,
                        mkEp (IP4 0x02000003) 8080 False True False],
            miss_nport = 31000\<rparr>"

definition lkPartial :: Lookup where
  "lkPartial a =
     (if a = IP4 0x02000002
      then Some \<lparr>rt_FlagWorkload = True, rt_FlagLocal = False, rt_NextHop = IP4 0xC0A8010B\<rparr>
      else None)"

definition lkFull :: Lookup where
  "lkFull a = Some \<lparr>rt_FlagWorkload = True, rt_FlagLocal = False, rt_NextHop = IP4 0xC0A8010B\<rparr>"

definition missRest :: expandMiss where
  "missRest = missA\<lparr>miss_eps := [mkEp (IP4 0x02000003) 8080 False True False]\<rparr>"

subsection \<open>A load balancer open to every source\<close>

text \<open>
  An IPv4 syncer in the middle of a sync pass: the primary entry of the service
  \<open>default/lb:http\<close> (10.0.0.2:80/TCP, one ready endpoint) was applied with id 7. The
  service has the load-balancer address 203.0.113.7 and the single source range
  0.0.0.0/0; \<open>lbInfo\<close> is the service info \<^verbatim>\<open>apply\<close> passes to \<^verbatim>\<open>applyDerived\<close> for
  that address.
\<close>

definition lbService :: Service where
  "lbService =
     (plainService (IP4 0x0A000002) 80 ProtocolTCP)
       \<lparr>loadBalancerVIPs := [IP4 0xCB007107],
        loadBalancerSourceRanges := [Some \<lparr>net_IP = IP4 0, net_ones = 0\<rparr>]\<rparr>"

definition lbInfo :: Service where
  "lbInfo = lbService\<lparr>clusterIP := IP4 0xCB007107\<rparr>"

definition lbSyncer :: Syncer where
  "lbSyncer =
     (emptySyncer 4)
       \<lparr>bpfSvcs := \<lparr>Dataplane = Map.empty,
                    Desired = [\<lparr>fk_addr = IP4 0x0A000002, fk_port = 80, fk_proto = 6,
                                fk_src = V4CIDR 0 0\<rparr> \<mapsto> NewNATValue 7 1 0 0]\<rparr>,
        bpfEps := \<lparr>Dataplane = Map.empty,
                   Desired = [NewNATBackendKey 7 0 \<mapsto> \<lparr>bv_addr = IP4 0x0A010001, bv_port = 8080\<rparr>]\<rparr>,
        newSvcMap := [getSvcKey ''default/lb:http'' None \<mapsto>
          \<lparr>info_id = 7, info_count = 1, info_localCount = 0, info_svc = lbService\<rparr>],
        nextSvcID := 8\<rparr>"

definition lbKey :: FrontendKey where
  "lbKey = \<lparr>fk_addr = IP4 0xCB007107, fk_port = 80, fk_proto = 6, fk_src = V4CIDR 0 0\<rparr>"

subsection \<open>The kernel, as the log of writes changes it\<close>

text \<open>
  The kernel's two tables, the effect of one write on them, and the replay of a log. A
  frontend value references the backend keys of its id below its count, unless the
  count is the black-hole value. A write is safe for the kernel it is made on when it
  is not the installation of a frontend that references a missing backend, and not the
  removal of a backend that a frontend of the kernel references; a log is safe when
  every write is safe for the kernel the writes before it have made. The phases of the
  writes are numbered in the order of \<^verbatim>\<open>apply\<close>.
\<close>

type_synonym Kernel = "(FrontendKey \<rightharpoonup> FrontendValue) \<times> (BackendKey \<rightharpoonup> BackendValue)"

definition kernelOf :: "Syncer \<Rightarrow> Kernel" where
  "kernelOf s = (Dataplane (bpfSvcs s), Dataplane (bpfEps s))"

fun kernelStep :: "KernelWrite \<Rightarrow> Kernel \<Rightarrow> Kernel" where
  "kernelStep (FrontendDelete k) (fe, be) = (fe(k := None), be)"
| "kernelStep (BackendUpdate k v) (fe, be) = (fe, be(k \<mapsto> v))"
| "kernelStep (FrontendUpdate k v) (fe, be) = (fe(k \<mapsto> v), be)"
| "kernelStep (BackendDelete k) (fe, be) = (fe, be(k := None))"

definition replay :: "KernelWrite list \<Rightarrow> Kernel \<Rightarrow> Kernel" where
  "replay writes K = fold kernelStep writes K"

definition references :: "FrontendValue \<Rightarrow> BackendKey \<Rightarrow> bool" where
  "references v bk \<longleftrightarrow> fv_count v \<noteq> BlackHoleCount \<and> bk_id bk = fv_id v \<and> bk_idx bk < fv_count v"

fun writeSafe :: "KernelWrite \<Rightarrow> Kernel \<Rightarrow> bool" where
  "writeSafe (FrontendUpdate k v) (fe, be) = (\<forall>bk. references v bk \<longrightarrow> be bk \<noteq> None)"
| "writeSafe (BackendDelete bk) (fe, be) = (\<forall>k v. fe k = Some v \<longrightarrow> \<not> references v bk)"
| "writeSafe (FrontendDelete k) (fe, be) = True"
| "writeSafe (BackendUpdate k v) (fe, be) = True"

fun safeLog :: "KernelWrite list \<Rightarrow> Kernel \<Rightarrow> bool" where
  "safeLog [] K = True"
| "safeLog (w # ws) K = (writeSafe w K \<and> safeLog ws (kernelStep w K))"

fun phaseRank :: "KernelWrite \<Rightarrow> nat" where
  "phaseRank (FrontendDelete k) = 0"
| "phaseRank (BackendUpdate k v) = 1"
| "phaseRank (FrontendUpdate k v) = 2"
| "phaseRank (BackendDelete k) = 3"

definition fourPhases :: "KernelWrite list \<Rightarrow> bool" where
  "fourPhases writes = sorted (map phaseRank writes)"

text \<open>
  The states of one \<^verbatim>\<open>Apply\<close>: the state the loop over the services starts on, the
  state it ends on, and whether \<^verbatim>\<open>Apply\<close> gets that far without an error. The writes
  of a call are what it appends to the log. The orders of the environment cover the
  tables when they list every key of the kernel tables and of the desired state.
\<close>

definition passStart :: "Env \<Rightarrow> DPSyncerState \<Rightarrow> Syncer \<Rightarrow> Syncer" where
  "passStart env state s =
     applyReset ((snd (ApplyStart env state s))\<lparr>stickySvcs := Map.empty, stickyEps := Map.empty\<rparr>)"

definition passEnd :: "Env \<Rightarrow> DPSyncerState \<Rightarrow> Syncer \<Rightarrow> Syncer" where
  "passEnd env state s =
     snd (snd (applyServices env state (remdups (env_svcOrder env)) [] (passStart env state s)))"

definition passOK :: "Env \<Rightarrow> DPSyncerState \<Rightarrow> Syncer \<Rightarrow> bool" where
  "passOK env state s \<longleftrightarrow>
     fst (ApplyStart env state s) = None \<and>
     fst (applyServices env state (remdups (env_svcOrder env)) [] (passStart env state s)) = None"

definition newWrites :: "Syncer \<Rightarrow> Syncer \<Rightarrow> KernelWrite list" where
  "newWrites s s' = drop (length (kernelLog s)) (kernelLog s')"

definition envCovers :: "Env \<Rightarrow> Syncer \<Rightarrow> Syncer \<Rightarrow> bool" where
  "envCovers env s sp \<longleftrightarrow>
     dom (Dataplane (bpfSvcs s)) \<union> dom (Desired (bpfSvcs sp)) \<subseteq> set (env_frontendOrder env) \<and>
     dom (Dataplane (bpfEps s)) \<union> dom (Desired (bpfEps sp)) \<subseteq> set (env_backendOrder env)"

text \<open>
  In the words of the specification, "any error short-circuits and is returned": the
  steps are run in order, and the first error ends the run and is returned with the
  state reached. Two states have the same kernel when the tables and the log agree.
\<close>

fun runUntilError :: "(Syncer \<Rightarrow> error option \<times> Syncer) list \<Rightarrow> Syncer \<Rightarrow> error option \<times> Syncer" where
  "runUntilError [] s = (None, s)"
| "runUntilError (p # ps) s =
     (case p s of
        (Some e, s1) \<Rightarrow> (Some e, s1)
      | (None, s1) \<Rightarrow> runUntilError ps s1)"

definition kernelFrame :: "Syncer \<Rightarrow> Syncer \<Rightarrow> bool" where
  "kernelFrame s s' \<longleftrightarrow> kernelOf s' = kernelOf s \<and> kernelLog s' = kernelLog s"

subsection \<open>A kernel with a stale service\<close>

text \<open>
  A synced IPv4 syncer whose kernel holds the frontend 10.0.0.9:80/TCP of a service
  that is gone, with id 5 and its one backend; the desired state is scenario A. Both
  environments list every key of the tables; in the second one the write of the
  frontend of scenario A fails.
\<close>

definition keyOld :: FrontendKey where
  "keyOld = \<lparr>fk_addr = IP4 0x0A000009, fk_port = 80, fk_proto = 6, fk_src = V4CIDR 0 0\<rparr>"

definition staleSyncer :: Syncer where
  "staleSyncer =
     (emptySyncer 4)
       \<lparr>bpfSvcs := \<lparr>Dataplane = [keyOld \<mapsto> NewNATValue 5 1 0 0], Desired = Map.empty\<rparr>,
        bpfEps := \<lparr>Dataplane = [NewNATBackendKey 5 0 \<mapsto> \<lparr>bv_addr = IP4 0x02000009, bv_port = 8080\<rparr>],
                   Desired = Map.empty\<rparr>,
        nextSvcID := 8, synced := True\<rparr>"

definition envW :: Env where
  "envW = quietEnv
     \<lparr>env_svcOrder := [''default/a:http''],
      env_frontendOrder := [keyOld, keyA],
      env_backendOrder := [NewNATBackendKey 5 0, NewNATBackendKey 8 0, NewNATBackendKey 8 1,
                           NewNATBackendKey 8 2]\<rparr>"

definition envF :: Env where
  "envF = envW\<lparr>env_frontendFails := (\<lambda>k. k = keyA)\<rparr>"

definition appliedW :: Syncer where
  "appliedW = snd (applySvc (getSvcKey ''default/a:http'' None) svcA epsA staleSyncer)"

subsection \<open>A kernel with a source-range frontend\<close>









section \<open>Properties\<close>

subsection \<open>What the writers of the sync pass change\<close>

lemma syncFrame_refl [simp]: "syncFrame s s"
  by (simp add: syncFrame_def)

lemma syncFrame_trans: "syncFrame s s1 \<Longrightarrow> syncFrame s1 s2 \<Longrightarrow> syncFrame s s2"
  by (simp add: syncFrame_def)

lemma desiredGrows_refl [simp]: "desiredGrows s s"
  by (simp add: desiredGrows_def)

lemma desiredGrows_trans: "desiredGrows s s1 \<Longrightarrow> desiredGrows s1 s2 \<Longrightarrow> desiredGrows s s2"
  by (simp add: desiredGrows_def)

lemma writeSvcBackend_syncFrame: "syncFrame s (writeSvcBackend i x ep s)"
  by (simp add: syncFrame_def writeSvcBackend_def setDesiredEp_def Desired_Set_def Let_def
      split: option.splits)

lemma writeSvcBackend_other [simp]:
  "bpfSvcs (writeSvcBackend i x ep s) = bpfSvcs s"
  "newSvcMap (writeSvcBackend i x ep s) = newSvcMap s"
  "newEpsMap (writeSvcBackend i x ep s) = newEpsMap s"
  "nextSvcID (writeSvcBackend i x ep s) = nextSvcID s"
  by (simp_all add: writeSvcBackend_def setDesiredEp_def Let_def split: option.splits)

lemma writeSvcBackend_Desired:
  "Desired (bpfEps (writeSvcBackend i x ep s)) =
     (Desired (bpfEps s))(NewNATBackendKey i x \<mapsto> backendOf ep)"
  by (simp add: writeSvcBackend_def setDesiredEp_def Desired_Set_def Let_def backendOf_def
      newBackendValue_def split: option.splits)

lemma writeBackends_syncFrame: "syncFrame s (writeBackends i c xs s)"
proof (induction xs arbitrary: c s)
  case Nil
  show ?case by simp
next
  case (Cons x xs)
  show ?case using syncFrame_trans [OF writeSvcBackend_syncFrame Cons.IH] by simp
qed

lemma writeBackends_other [simp]:
  "bpfSvcs (writeBackends i c xs s) = bpfSvcs s"
  "newSvcMap (writeBackends i c xs s) = newSvcMap s"
  "newEpsMap (writeBackends i c xs s) = newEpsMap s"
  "nextSvcID (writeBackends i c xs s) = nextSvcID s"
  by (induction xs arbitrary: c s) simp_all

lemma writeBackends_grows: "desiredGrows s (writeBackends i c xs s)"
proof (induction xs arbitrary: c s)
  case Nil
  show ?case by simp
next
  case (Cons x xs)
  have "desiredGrows s (writeSvcBackend i (of_nat c) x s)"
    by (simp add: desiredGrows_def writeSvcBackend_Desired)
  from desiredGrows_trans [OF this Cons.IH] show ?case by simp
qed

lemma writeBackends_present:
  "j < length xs \<Longrightarrow>
   Desired (bpfEps (writeBackends i c xs s)) (NewNATBackendKey i (of_nat (c + j))) \<noteq> None"
proof (induction xs arbitrary: c j s)
  case Nil
  then show ?case by simp
next
  case (Cons x xs)
  show ?case
  proof (cases j)
    case 0
    have "Desired (bpfEps (writeSvcBackend i (of_nat c) x s)) (NewNATBackendKey i (of_nat c)) \<noteq> None"
      by (simp add: writeSvcBackend_Desired)
    then show ?thesis
      using writeBackends_grows [of "writeSvcBackend i (of_nat c) x s" i "Suc c" xs] 0
      by (simp add: desiredGrows_def)
  next
    case (Suc j')
    then show ?thesis using Cons.IH [of j' "Suc c"] Cons.prems by simp
  qed
qed

lemma writeSvc_syncFrame: "syncFrame s (snd (writeSvc svc i c l f s))"
  by (simp add: syncFrame_def writeSvc_def setDesiredSvc_def Desired_Set_def Let_def
      split: sum.splits option.splits)

lemma writeSvc_other [simp]:
  "bpfEps (snd (writeSvc svc i c l f s)) = bpfEps s"
  "newSvcMap (snd (writeSvc svc i c l f s)) = newSvcMap s"
  "newEpsMap (snd (writeSvc svc i c l f s)) = newEpsMap s"
  "nextSvcID (snd (writeSvc svc i c l f s)) = nextSvcID s"
  by (simp_all add: writeSvc_def setDesiredSvc_def Let_def split: sum.splits option.splits)

lemma writeSvc_fst:
  "fst (writeSvc svc i c l f s) = (case ProtoV1ToInt (protocol svc) of Inl e \<Rightarrow> Some e | Inr p \<Rightarrow> None)"
  by (simp add: writeSvc_def getSvcNATKey_def Let_def split: sum.splits option.splits)

lemma writeSvc_Desired:
  "Desired (bpfSvcs (snd (writeSvc svc i c l f s))) =
     (case getSvcNATKey s svc of
        Inl e \<Rightarrow> Desired (bpfSvcs s)
      | Inr key \<Rightarrow> (Desired (bpfSvcs s))(key \<mapsto>
          NewNATValueWithFlags i (of_nat c) (of_nat l) (affinityTimeo svc)
            ((if excludeService svc then {NATFlgExclude} else {}) \<union>
             (case excludedCIDRs s of None \<Rightarrow> f
              | Some lpm \<Rightarrow> if lpm (clusterIP svc) then insert NATFlgExclude f else f))))"
  by (auto simp: writeSvc_def setDesiredSvc_def Desired_Set_def Let_def
      split: sum.splits option.splits)

lemma updateService_local_eq:
  "updateService_local i eps cnt local cp s =
     (cnt + length (readyLocal eps), local + length (readyLocal eps),
      cp @ filter ep_IsLocal eps, writeBackends i cnt (readyLocal eps) s)"
  by (induction eps arbitrary: cnt local cp s) (simp_all add: readyLocal_def)

lemma updateService_remote_eq:
  "updateService_remote i eps cnt cp s =
     (cnt + length (readyRemote eps),
      cp @ filter (\<lambda>e. \<not> ep_IsLocal e) eps, writeBackends i cnt (readyRemote eps) s)"
  by (induction eps arbitrary: cnt cp s) (simp_all add: readyRemote_def)

lemma updateService_unfold:
  "updateService skey sinfo i eps s =
     (case writeSvc sinfo i (length (readyLocal eps) + length (readyRemote eps))
             (length (readyLocal eps))
             (if nodeLocalInternal sinfo then {NATFlgInternalLocal} else {})
             (updateService_backends i sinfo eps s) of
        (Some e, s4) \<Rightarrow> (Inl e, s4)
      | (None, s4) \<Rightarrow>
          (Inr (length (readyLocal eps) + length (readyRemote eps), length (readyLocal eps)),
           if hasSvcKeyExtra skey svcTypeNodePortRemote then s4
           else s4\<lparr>newEpsMap := (newEpsMap s4)(sname skey \<mapsto>
                  filter ep_IsLocal eps @ filter (\<lambda>e. \<not> ep_IsLocal e) eps)\<rparr>))"
  by (simp add: updateService_def Let_def updateService_local_eq updateService_remote_eq
      updateService_backends_def split: prod.splits option.splits)

lemma updateService_backends_syncFrame: "syncFrame s (updateService_backends i sinfo eps s)"
proof -
  let ?s1 = "if sessionAffinityType sinfo = ServiceAffinityClientIP
           then s\<lparr>stickyEps := (stickyEps s)(i \<mapsto> {})\<rparr> else s"
  have "syncFrame s ?s1" by (simp add: syncFrame_def)
  then show ?thesis
    unfolding updateService_backends_def
    by (blast intro: syncFrame_trans writeBackends_syncFrame)
qed

lemma updateService_backends_other [simp]:
  "bpfSvcs (updateService_backends i sinfo eps s) = bpfSvcs s"
  "newSvcMap (updateService_backends i sinfo eps s) = newSvcMap s"
  "newEpsMap (updateService_backends i sinfo eps s) = newEpsMap s"
  "nextSvcID (updateService_backends i sinfo eps s) = nextSvcID s"
  by (simp_all add: updateService_backends_def)

lemma updateService_backends_grows: "desiredGrows s (updateService_backends i sinfo eps s)"
proof -
  let ?s1 = "if sessionAffinityType sinfo = ServiceAffinityClientIP
           then s\<lparr>stickyEps := (stickyEps s)(i \<mapsto> {})\<rparr> else s"
  have "desiredGrows s ?s1" by (simp add: desiredGrows_def)
  then show ?thesis
    unfolding updateService_backends_def
    by (blast intro: desiredGrows_trans writeBackends_grows)
qed

lemma word32_less_of_nat: "x < (of_nat n :: 32 word) \<Longrightarrow> unat x < n"
proof -
  assume "x < (of_nat n :: 32 word)"
  then have "unat x < unat (of_nat n :: 32 word)" by (simp only: word_less_nat_alt)
  also have "\<dots> \<le> n" by (simp only: unat_of_nat mod_less_eq_dividend)
  finally show ?thesis .
qed

lemma updateService_backends_slots:
  "slotsPresent (Desired (bpfEps (updateService_backends i sinfo eps s))) i
     (of_nat (length (readyLocal eps) + length (readyRemote eps)))"
  unfolding slotsPresent_def
proof (intro allI impI)
  fix x :: "32 word"
  let ?s1 = "if sessionAffinityType sinfo = ServiceAffinityClientIP
           then s\<lparr>stickyEps := (stickyEps s)(i \<mapsto> {})\<rparr> else s"
  let ?s2 = "writeBackends i 0 (readyLocal eps) ?s1"
  assume "x < of_nat (length (readyLocal eps) + length (readyRemote eps))"
  then have lt: "unat x < length (readyLocal eps) + length (readyRemote eps)"
    by (rule word32_less_of_nat)
  have x: "of_nat (unat x) = x" by simp
  show "Desired (bpfEps (updateService_backends i sinfo eps s)) (NewNATBackendKey i x) \<noteq> None"
  proof (cases "unat x < length (readyLocal eps)")
    case True
    from writeBackends_present [OF True, of i 0 ?s1]
    have "Desired (bpfEps ?s2) (NewNATBackendKey i x) \<noteq> None" by (simp add: x)
    then show ?thesis
      using writeBackends_grows [of ?s2 i "length (readyLocal eps)" "readyRemote eps"]
      unfolding updateService_backends_def desiredGrows_def by blast
  next
    case False
    then have j: "unat x - length (readyLocal eps) < length (readyRemote eps)"
      and e: "length (readyLocal eps) + (unat x - length (readyLocal eps)) = unat x"
      using lt by simp_all
    from writeBackends_present [OF j, of i "length (readyLocal eps)" ?s2]
    show ?thesis unfolding updateService_backends_def by (simp add: e x)
  qed
qed

lemma referencesOK_mono:
  "referencesOK be v \<Longrightarrow> (\<And>k. be k \<noteq> None \<Longrightarrow> be' k \<noteq> None) \<Longrightarrow> referencesOK be' v"
  by (auto simp: referencesOK_def slotsPresent_def)

lemma slotsPresent_mono:
  "slotsPresent be i c \<Longrightarrow> (\<And>k. be k \<noteq> None \<Longrightarrow> be' k \<noteq> None) \<Longrightarrow> slotsPresent be' i c"
  by (auto simp: slotsPresent_def)

lemma closedDesired_grows:
  "closedDesired s \<Longrightarrow> desiredGrows s s' \<Longrightarrow> Desired (bpfSvcs s') = Desired (bpfSvcs s) \<Longrightarrow>
   closedDesired s'"
  unfolding closedDesired_def desiredGrows_def
  by (metis referencesOK_mono)

lemma svcMapClosed_grows:
  "svcMapClosed s \<Longrightarrow> desiredGrows s s' \<Longrightarrow> newSvcMap s' = newSvcMap s \<Longrightarrow> svcMapClosed s'"
  unfolding svcMapClosed_def desiredGrows_def
  by (metis slotsPresent_mono)

lemma writeSvc_closedDesired:
  assumes "closedDesired s" and "slotsPresent (Desired (bpfEps s)) i (of_nat c)"
  shows "closedDesired (snd (writeSvc svc i c l f s))"
  using assms
  by (auto simp: closedDesired_def writeSvc_Desired referencesOK_def NewNATValueWithFlags_def
      split: sum.splits)

lemma writeSvc_svcMapClosed:
  "svcMapClosed s \<Longrightarrow> svcMapClosed (snd (writeSvc svc i c l f s))"
  by (simp add: svcMapClosed_def)

lemma writeSvc_grows: "desiredGrows s (snd (writeSvc svc i c l f s))"
  by (simp add: desiredGrows_def)

lemma updateService_result:
  assumes "updateService skey sinfo i eps s = (r, s')"
  shows "syncFrame s s' \<and> desiredGrows s s' \<and> newSvcMap s' = newSvcMap s \<and>
         nextSvcID s' = nextSvcID s \<and>
         (closedDesired s \<longrightarrow> closedDesired s') \<and>
         slotsPresent (Desired (bpfEps s')) i (of_nat (updateService_cnt eps)) \<and>
         (case r of Inl e \<Rightarrow> ProtoV1ToInt (protocol sinfo) = Inl e
          | Inr (cnt, local) \<Rightarrow> cnt = updateService_cnt eps \<and> local = length (readyLocal eps) \<and>
              (\<exists>p. ProtoV1ToInt (protocol sinfo) = Inr p))"
proof -
  let ?c = "length (readyLocal eps) + length (readyRemote eps)"
  let ?f = "if nodeLocalInternal sinfo then {NATFlgInternalLocal} else {}"
  let ?s3 = "updateService_backends i sinfo eps s"
  let ?w = "writeSvc sinfo i ?c (length (readyLocal eps)) ?f ?s3"
  obtain r4 x where w: "?w = (r4, x)" by (cases ?w)
  then have x: "x = snd ?w" and r4: "r4 = fst ?w" by simp_all
  have r4v: "r4 = (case ProtoV1ToInt (protocol sinfo) of Inl e \<Rightarrow> Some e | Inr p \<Rightarrow> None)"
    unfolding r4 by (rule writeSvc_fst)
  have f3: "syncFrame s ?s3" by (rule updateService_backends_syncFrame)
  have f4: "syncFrame s x" unfolding x by (rule syncFrame_trans [OF f3 writeSvc_syncFrame])
  have g3: "desiredGrows s ?s3" by (rule updateService_backends_grows)
  have g4: "desiredGrows s x" unfolding x by (rule desiredGrows_trans [OF g3 writeSvc_grows])
  have sl3: "slotsPresent (Desired (bpfEps ?s3)) i (of_nat ?c)"
    by (rule updateService_backends_slots)
  have sl4: "slotsPresent (Desired (bpfEps x)) i (of_nat (updateService_cnt eps))"
    unfolding x updateService_cnt_def using sl3 by simp
  have o4: "newSvcMap x = newSvcMap s" "nextSvcID x = nextSvcID s" unfolding x by simp_all
  have c4: "closedDesired s \<longrightarrow> closedDesired x"
  proof
    assume "closedDesired s"
    then have "closedDesired ?s3" using closedDesired_grows [OF _ g3] by simp
    then show "closedDesired x" unfolding x using writeSvc_closedDesired [OF _ sl3] by blast
  qed
  have s': "s' = x \<or> s' = x\<lparr>newEpsMap := (newEpsMap x)(sname skey \<mapsto>
                  filter ep_IsLocal eps @ filter (\<lambda>e. \<not> ep_IsLocal e) eps)\<rparr>"
    using assms unfolding updateService_unfold w by (auto split: option.splits if_splits)
  have r: "(case r of Inl e \<Rightarrow> ProtoV1ToInt (protocol sinfo) = Inl e
          | Inr (cnt, local) \<Rightarrow> cnt = updateService_cnt eps \<and> local = length (readyLocal eps) \<and>
              (\<exists>p. ProtoV1ToInt (protocol sinfo) = Inr p))"
    using assms r4v unfolding updateService_unfold w updateService_cnt_def
    by (auto split: option.splits if_splits sum.splits)
  from s' show ?thesis
  proof
    assume "s' = x"
    then show ?thesis using f4 g4 sl4 c4 r o4 by simp
  next
    assume e: "s' = x\<lparr>newEpsMap := (newEpsMap x)(sname skey \<mapsto>
                  filter ep_IsLocal eps @ filter (\<lambda>e. \<not> ep_IsLocal e) eps)\<rparr>"
    have "syncFrame s s'" using f4 unfolding e syncFrame_def by simp
    moreover have "desiredGrows s s'" using g4 unfolding e desiredGrows_def by simp
    moreover have "closedDesired s \<longrightarrow> closedDesired s'" using c4 unfolding e closedDesired_def by simp
    ultimately show ?thesis using sl4 r o4 unfolding e by simp
  qed
qed

lemma applySvc_unfold:
  "applySvc skey sinfo eps s =
     (case updateService skey sinfo (applySvc_id skey sinfo s) eps
             (if applySvc_reuses skey sinfo s then s else s\<lparr>nextSvcID := nextSvcID s + 1\<rparr>) of
        (Inl e, s2) \<Rightarrow> (Some e, s2)
      | (Inr (count, local), s2) \<Rightarrow>
          (None, s2\<lparr>newSvcMap := (newSvcMap s2)(skey \<mapsto>
             \<lparr>info_id = applySvc_id skey sinfo s, info_count = count, info_localCount = local,
              info_svc = sinfo\<rparr>)\<rparr>))"
  by (auto simp: applySvc_def applySvc_id_def applySvc_reuses_def newSvcID_def Let_def
      split: option.splits prod.splits sum.splits)

lemma applySvc_result:
  assumes "applySvc skey sinfo eps s = (r, s')"
  shows "syncFrame s s' \<and> desiredGrows s s' \<and> (syncInv s \<longrightarrow> syncInv s') \<and>
         nextSvcID s' = (if applySvc_reuses skey sinfo s then nextSvcID s else nextSvcID s + 1) \<and>
         (case r of
            Some e \<Rightarrow> ProtoV1ToInt (protocol sinfo) = Inl e \<and> newSvcMap s' = newSvcMap s
          | None \<Rightarrow> (\<exists>p. ProtoV1ToInt (protocol sinfo) = Inr p) \<and>
              newSvcMap s' = (newSvcMap s)(skey \<mapsto>
                \<lparr>info_id = applySvc_id skey sinfo s, info_count = updateService_cnt eps,
                 info_localCount = length (readyLocal eps), info_svc = sinfo\<rparr>))"
proof -
  let ?sa = "if applySvc_reuses skey sinfo s then s else s\<lparr>nextSvcID := nextSvcID s + 1\<rparr>"
  let ?i = "applySvc_id skey sinfo s"
  obtain ru s2 where u: "updateService skey sinfo ?i eps ?sa = (ru, s2)"
    by (cases "updateService skey sinfo ?i eps ?sa")
  note ur = updateService_result [OF u]
  have fa: "syncFrame s ?sa" by (simp add: syncFrame_def)
  have ga: "desiredGrows s ?sa" by (simp add: desiredGrows_def)
  have f2: "syncFrame s s2" using syncFrame_trans [OF fa] ur by blast
  have g2: "desiredGrows s s2" using desiredGrows_trans [OF ga] ur by blast
  have n2: "newSvcMap s2 = newSvcMap s" "nextSvcID s2 = nextSvcID ?sa" using ur by simp_all
  have c2: "closedDesired s \<Longrightarrow> closedDesired s2"
  proof -
    assume "closedDesired s"
    then have "closedDesired ?sa" by (simp add: closedDesired_def)
    then show ?thesis using ur by blast
  qed
  have m2: "svcMapClosed s \<Longrightarrow> svcMapClosed s2"
    using svcMapClosed_grows [OF _ g2] n2 by simp
  have sl: "slotsPresent (Desired (bpfEps s2)) ?i (of_nat (updateService_cnt eps))"
    using ur by blast
  show ?thesis
  proof (cases ru)
    case (Inl e)
    then have "r = Some e" "s' = s2" using assms unfolding applySvc_unfold u by simp_all
    then show ?thesis using f2 g2 n2 c2 m2 ur Inl by (auto simp: syncInv_def)
  next
    case (Inr cl)
    then obtain c l where cl: "ru = Inr (c, l)" by (cases cl) simp
    then have c: "c = updateService_cnt eps" "l = length (readyLocal eps)"
      and p: "\<exists>p. ProtoV1ToInt (protocol sinfo) = Inr p" using ur by simp_all
    have r: "r = None" and s': "s' = s2\<lparr>newSvcMap := (newSvcMap s2)(skey \<mapsto>
             \<lparr>info_id = ?i, info_count = c, info_localCount = l, info_svc = sinfo\<rparr>)\<rparr>"
      using assms unfolding applySvc_unfold u cl by simp_all
    have "syncFrame s s'" using f2 unfolding s' syncFrame_def by simp
    moreover have "desiredGrows s s'" using g2 unfolding s' desiredGrows_def by simp
    moreover have "syncInv s \<longrightarrow> syncInv s'"
    proof
      assume i: "syncInv s"
      then have "closedDesired s2" "svcMapClosed s2" using c2 m2 by (simp_all add: syncInv_def)
      then show "syncInv s'" using sl unfolding s' syncInv_def closedDesired_def svcMapClosed_def c
        by simp
    qed
    ultimately show ?thesis using n2 p unfolding r s' c by simp
  qed
qed

lemma applySvc_fst:
  "fst (applySvc skey sinfo eps s) =
     (case ProtoV1ToInt (protocol sinfo) of Inl e \<Rightarrow> Some e | Inr p \<Rightarrow> None)"
proof -
  obtain r s' where a: "applySvc skey sinfo eps s = (r, s')" by (cases "applySvc skey sinfo eps s")
  from applySvc_result [OF a] show ?thesis unfolding a by (cases r) auto
qed

lemma applySvc_newSvcMap:
  assumes "applySvc skey sinfo eps s = (None, s')"
  shows "newSvcMap s' = (newSvcMap s)(skey \<mapsto>
           \<lparr>info_id = applySvc_id skey sinfo s, info_count = updateService_cnt eps,
            info_localCount = length (readyLocal eps), info_svc = sinfo\<rparr>)"
    and "nextSvcID s' = (if applySvc_reuses skey sinfo s then nextSvcID s else nextSvcID s + 1)"
    and "prevSvcMap s' = prevSvcMap s"
  using applySvc_result [OF assms] by (simp_all add: syncFrame_def)

lemma word_succ_gt:
  fixes n :: "32 word"
  assumes "n \<noteq> - 1"
  shows "n < n + 1"
proof -
  have "\<not> n + 1 \<le> n" using assms inc_less_eq_self_iff_eq [of n] by blast
  then show ?thesis by (simp only: not_le)
qed

lemma word_less_succ:
  fixes a n :: "32 word"
  assumes "a < n" and "n \<noteq> - 1"
  shows "a < n + 1"
  using assms(1) word_succ_gt [OF assms(2)] by (rule less_trans)

lemma ran_upd_cases:
  "x \<in> ran (m(k \<mapsto> v)) \<Longrightarrow> x = v \<or> x \<in> ran m"
  by (auto simp: ran_def split: if_splits)

lemma applySvc_idsBelowNext:
  assumes "idsBelowNext s" and "nextSvcID s \<noteq> - 1" and "applySvc skey sinfo eps s = (r, s')"
  shows "idsBelowNext s'"
proof -
  note ar = applySvc_result [OF assms(3)]
  have p: "prevSvcMap s' = prevSvcMap s" using ar by (simp add: syncFrame_def)
  have n: "nextSvcID s' = nextSvcID s \<or> nextSvcID s' = nextSvcID s + 1"
    using ar by (cases "applySvc_reuses skey sinfo s") simp_all
  have old: "info_id info < nextSvcID s'"
    if "info \<in> ran (prevSvcMap s) \<union> ran (newSvcMap s)" for info
  proof -
    have "info_id info < nextSvcID s" using that assms(1) unfolding idsBelowNext_def by blast
    then show ?thesis using n word_less_succ [OF _ assms(2)] by metis
  qed
  have new: "applySvc_id skey sinfo s < nextSvcID s'"
  proof (cases "applySvc_reuses skey sinfo s")
    case True
    then obtain o' where o: "prevSvcMap s skey = Some o'" "applySvc_id skey sinfo s = info_id o'"
      by (auto simp: applySvc_reuses_def applySvc_id_def split: option.splits)
    then have "o' \<in> ran (prevSvcMap s)" by (auto simp: ran_def)
    then show ?thesis using old [of o'] o by simp
  next
    case False
    then have "applySvc_id skey sinfo s = nextSvcID s"
      by (auto simp: applySvc_reuses_def applySvc_id_def split: option.splits)
    moreover have "nextSvcID s' = nextSvcID s + 1" using ar False by simp
    ultimately show ?thesis using word_succ_gt [OF assms(2)] by (simp only:)
  qed
  have m: "newSvcMap s' = newSvcMap s \<or> newSvcMap s' = (newSvcMap s)(skey \<mapsto>
           \<lparr>info_id = applySvc_id skey sinfo s, info_count = updateService_cnt eps,
            info_localCount = length (readyLocal eps), info_svc = sinfo\<rparr>)"
    using ar by (cases r) simp_all
  show ?thesis unfolding idsBelowNext_def p
  proof
    fix info
    assume a: "info \<in> ran (prevSvcMap s) \<union> ran (newSvcMap s')"
    from m show "info_id info < nextSvcID s'"
    proof
      assume "newSvcMap s' = newSvcMap s"
      then show ?thesis using a old by simp
    next
      assume e: "newSvcMap s' = (newSvcMap s)(skey \<mapsto>
           \<lparr>info_id = applySvc_id skey sinfo s, info_count = updateService_cnt eps,
            info_localCount = length (readyLocal eps), info_svc = sinfo\<rparr>)"
      from a consider "info \<in> ran (prevSvcMap s)" | "info \<in> ran (newSvcMap s')" by blast
      then show ?thesis
      proof cases
        case 1
        then show ?thesis using old by simp
      next
        case 2
        from ran_upd_cases [OF 2 [unfolded e]] show ?thesis
        proof
          assume "info = \<lparr>info_id = applySvc_id skey sinfo s, info_count = updateService_cnt eps,
            info_localCount = length (readyLocal eps), info_svc = sinfo\<rparr>"
          then show ?thesis using new by simp
        next
          assume "info \<in> ran (newSvcMap s)"
          then show ?thesis using old by simp
        qed
      qed
    qed
  qed
qed

subsection \<open>Derived entries keep the invariant\<close>

lemma syncStep_refl [simp]: "syncStep s s"
  by (simp add: syncStep_def)

lemma syncStep_trans: "syncStep s s1 \<Longrightarrow> syncStep s1 s2 \<Longrightarrow> syncStep s s2"
  unfolding syncStep_def by (blast intro: syncFrame_trans desiredGrows_trans)

lemma applySvc_syncStep: "syncStep s (snd (applySvc skey sinfo eps s))"
proof -
  obtain r s' where a: "applySvc skey sinfo eps s = (r, s')" by (cases "applySvc skey sinfo eps s")
  from applySvc_result [OF a] show ?thesis by (simp add: a syncStep_def)
qed

lemma fold_setDesiredSvc_frame:
  "syncFrame s (fold (\<lambda>key. setDesiredSvc key val) keys s)"
  "bpfEps (fold (\<lambda>key. setDesiredSvc key val) keys s) = bpfEps s"
  "newSvcMap (fold (\<lambda>key. setDesiredSvc key val) keys s) = newSvcMap s"
  "nextSvcID (fold (\<lambda>key. setDesiredSvc key val) keys s) = nextSvcID s"
  "ipFamily (fold (\<lambda>key. setDesiredSvc key val) keys s) = ipFamily s"
  by (induction keys arbitrary: s)
    (simp_all add: setDesiredSvc_def Desired_Set_def syncFrame_def)

lemma fold_setDesiredSvc_Desired:
  "Desired (bpfSvcs (fold (\<lambda>key. setDesiredSvc key val) keys s)) k =
     (if k \<in> set keys then Some val else Desired (bpfSvcs s) k)"
  by (induction keys arbitrary: s) (simp_all add: setDesiredSvc_def Desired_Set_def)

lemma writeLBSrcRangeSvcNATKeys_frame:
  "syncFrame s (snd (writeLBSrcRangeSvcNATKeys svc i c l f s))"
  "bpfEps (snd (writeLBSrcRangeSvcNATKeys svc i c l f s)) = bpfEps s"
  "newSvcMap (snd (writeLBSrcRangeSvcNATKeys svc i c l f s)) = newSvcMap s"
  "nextSvcID (snd (writeLBSrcRangeSvcNATKeys svc i c l f s)) = nextSvcID s"
  using fold_setDesiredSvc_frame(1) [of s]
  by (auto simp: writeLBSrcRangeSvcNATKeys_def Let_def fold_setDesiredSvc_frame setDesiredSvc_def
      Desired_Set_def syncFrame_def split: sum.splits)
text \<open>What the desired frontends are after writeLBSrcRangeSvcNATKeys.\<close>

lemma writeLBSrcRangeSvcNATKeys_Desired:
  "Desired (bpfSvcs (snd (writeLBSrcRangeSvcNATKeys svc i c l f s))) k =
     (if length (loadBalancerSourceRanges svc) = 0 then Desired (bpfSvcs s) k
      else case getSvcNATKeyLBSrcRange s svc of
        Inl e \<Rightarrow> Desired (bpfSvcs s) k
      | Inr keys \<Rightarrow>
          if getSvcNATKey s svc = Inr k then Some (NewNATValue i BlackHoleCount 0 0)
          else if k \<in> set keys
          then Some (NewNATValueWithFlags i (of_nat c) (of_nat l) (affinityTimeo svc) f)
          else Desired (bpfSvcs s) k)"
  by (auto simp: writeLBSrcRangeSvcNATKeys_def Let_def fold_setDesiredSvc_Desired
      setDesiredSvc_def Desired_Set_def split: sum.splits)

lemma writeLBSrcRangeSvcNATKeys_values:
  "Desired (bpfSvcs (snd (writeLBSrcRangeSvcNATKeys svc i c l f s))) k = Desired (bpfSvcs s) k \<or>
   Desired (bpfSvcs (snd (writeLBSrcRangeSvcNATKeys svc i c l f s))) k =
     Some (NewNATValueWithFlags i (of_nat c) (of_nat l) (affinityTimeo svc) f) \<or>
   Desired (bpfSvcs (snd (writeLBSrcRangeSvcNATKeys svc i c l f s))) k =
     Some (NewNATValue i BlackHoleCount 0 0)"
  unfolding writeLBSrcRangeSvcNATKeys_Desired by (simp split: sum.splits)

lemma writeLBSrcRangeSvcNATKeys_closedDesired:
  assumes "closedDesired s" and "slotsPresent (Desired (bpfEps s)) i (of_nat c)"
  shows "closedDesired (snd (writeLBSrcRangeSvcNATKeys svc i c l f s))"
  unfolding closedDesired_def
proof (intro allI impI)
  fix k v
  let ?s' = "snd (writeLBSrcRangeSvcNATKeys svc i c l f s)"
  assume d: "Desired (bpfSvcs ?s') k = Some v"
  have e: "Desired (bpfEps ?s') = Desired (bpfEps s)"
    by (simp add: writeLBSrcRangeSvcNATKeys_frame)
  from writeLBSrcRangeSvcNATKeys_values [of svc i c l f s k] d
  consider "Desired (bpfSvcs s) k = Some v"
    | "v = NewNATValueWithFlags i (of_nat c) (of_nat l) (affinityTimeo svc) f"
    | "v = NewNATValue i BlackHoleCount 0 0"
    by auto
  then show "referencesOK (Desired (bpfEps ?s')) v"
  proof cases
    case 1
    then show ?thesis using assms(1) unfolding e closedDesired_def by blast
  next
    case 2
    then show ?thesis using assms(2) unfolding e
      by (simp add: referencesOK_def NewNATValueWithFlags_def)
  next
    case 3
    then show ?thesis
      by (simp add: referencesOK_def NewNATValue_def NewNATValueWithFlags_def)
  qed
qed

lemma applyDerived_syncStep: "syncStep s (snd (applyDerived n t sinfo s))"
proof (cases "newSvcMap s (getSvcKey n None)")
  case None
  then show ?thesis by (simp add: applyDerived_def)
next
  case (Some svc)
  define fl where "fl = (if t = svcTypeExternalIP then {}
             else (if nodeLocalExternal sinfo then {NATFlgExternalLocal} else {}) \<union>
                  (if nodeLocalInternal sinfo then {NATFlgInternalLocal} else {}))"
  let ?w = "writeSvc sinfo (info_id svc) (info_count svc) (info_localCount svc) fl s"
  let ?s1 = "snd ?w"
  let ?r = "if t = svcTypeLoadBalancer \<or> t = svcTypeExternalIP
            then writeLBSrcRangeSvcNATKeys sinfo (info_id svc) (info_count svc)
                   (info_localCount svc) fl ?s1
            else (None, ?s1)"
  let ?s2 = "snd ?r"
  let ?s3 = "?s2\<lparr>newSvcMap := (newSvcMap ?s2)(getSvcKey n (getSvcKeyExtra t (clusterIP sinfo)) \<mapsto>
     \<lparr>info_id = info_id svc, info_count = info_count svc, info_localCount = info_localCount svc,
      info_svc = sinfo\<rparr>)\<rparr>"
  have unf: "applyDerived n t sinfo s =
      (case ?w of (Some e, s1) \<Rightarrow> (Some e, s1)
       | (None, s1) \<Rightarrow>
          (let r = (if t = svcTypeLoadBalancer \<or> t = svcTypeExternalIP
                    then writeLBSrcRangeSvcNATKeys sinfo (info_id svc) (info_count svc)
                           (info_localCount svc) fl s1
                    else (None, s1))
           in case fst r of
                Some (Panic m) \<Rightarrow> (Some (Panic m), snd r)
              | _ \<Rightarrow> (None, (snd r)\<lparr>newSvcMap := (newSvcMap (snd r))(getSvcKey n (getSvcKeyExtra t (clusterIP sinfo)) \<mapsto>
     \<lparr>info_id = info_id svc, info_count = info_count svc, info_localCount = info_localCount svc,
      info_svc = sinfo\<rparr>)\<rparr>)))"
    unfolding applyDerived_def Let_def fl_def Some by (simp only: option.case)
  have s': "snd (applyDerived n t sinfo s) = ?s1 \<or> snd (applyDerived n t sinfo s) = ?s2 \<or>
            snd (applyDerived n t sinfo s) = ?s3"
  proof -
    obtain r1 s1 where w: "?w = (r1, s1)" by (cases ?w)
    show ?thesis
    proof (cases r1)
      case (Some e)
      show ?thesis unfolding unf w Some by simp
    next
      case None
      let ?q = "if t = svcTypeLoadBalancer \<or> t = svcTypeExternalIP
            then writeLBSrcRangeSvcNATKeys sinfo (info_id svc) (info_count svc)
                   (info_localCount svc) fl s1
            else (None, s1)"
      obtain r2 s2 where q: "?q = (r2, s2)" by (cases ?q)
      show ?thesis
      proof (cases "\<exists>m. r2 = Some (Panic m)")
        case True
        then obtain m where "r2 = Some (Panic m)" by blast
        then show ?thesis unfolding unf w None using q by (auto simp: Let_def split: if_splits)
      next
        case False
        then have "(case r2 of Some (Panic m) \<Rightarrow> (Some (Panic m), x) | _ \<Rightarrow> (None :: error option, y)) =
            (None, y)" for x y :: Syncer
          by (auto split: option.splits error.splits)
        then show ?thesis unfolding unf w None using q by (auto simp: Let_def split: if_splits)
      qed
    qed
  qed
  have f1: "syncFrame s ?s1" by (rule writeSvc_syncFrame)
  have f2: "syncFrame s ?s2"
    using syncFrame_trans [OF f1 writeLBSrcRangeSvcNATKeys_frame(1)] f1 by simp
  have f3: "syncFrame s ?s3" using f2 unfolding syncFrame_def by simp
  have e1: "bpfEps ?s1 = bpfEps s" by simp
  have e2: "bpfEps ?s2 = bpfEps s" by (simp add: writeLBSrcRangeSvcNATKeys_frame)
  have e3: "bpfEps ?s3 = bpfEps s" using e2 by simp
  have n1: "newSvcMap ?s1 = newSvcMap s" by simp
  have n2: "newSvcMap ?s2 = newSvcMap s" by (simp add: writeLBSrcRangeSvcNATKeys_frame)
  have inv: "syncInv ?s1 \<and> syncInv ?s2 \<and> syncInv ?s3" if i: "syncInv s"
  proof -
    from i Some have sl: "slotsPresent (Desired (bpfEps s)) (info_id svc) (of_nat (info_count svc))"
      unfolding syncInv_def svcMapClosed_def by blast
    have c1: "closedDesired ?s1" using writeSvc_closedDesired [OF _ sl] i by (simp add: syncInv_def)
    have m1: "svcMapClosed ?s1" using i by (simp add: syncInv_def svcMapClosed_def)
    have sl1: "slotsPresent (Desired (bpfEps ?s1)) (info_id svc) (of_nat (info_count svc))"
      using sl by simp
    have c2: "closedDesired ?s2"
      using writeLBSrcRangeSvcNATKeys_closedDesired [OF c1 sl1] c1 by simp
    have m2: "svcMapClosed ?s2" using m1 n1 n2 e1 e2 by (simp add: svcMapClosed_def)
    have c3: "closedDesired ?s3" using c2 by (simp add: closedDesired_def)
    have m3: "svcMapClosed ?s3" using m2 sl e2 unfolding svcMapClosed_def by simp
    show ?thesis using c1 m1 c2 m2 c3 m3 by (simp add: syncInv_def)
  qed
  from s' show ?thesis
  proof (elim disjE)
    assume "snd (applyDerived n t sinfo s) = ?s1"
    then show ?thesis using f1 e1 inv unfolding syncStep_def desiredGrows_def by simp
  next
    assume "snd (applyDerived n t sinfo s) = ?s2"
    then show ?thesis using f2 e2 inv unfolding syncStep_def desiredGrows_def by simp
  next
    assume "snd (applyDerived n t sinfo s) = ?s3"
    then show ?thesis using f3 e3 inv unfolding syncStep_def desiredGrows_def by simp
  qed
qed

subsection \<open>Source-range frontends at cold start\<close>

lemma svcRefKeys_zero_src:
  "svcRefKeys s svc = Inr ks \<Longrightarrow> k \<in> set ks \<Longrightarrow> fk_src k = ZeroCIDR (ipFamily s)"
  by (auto simp: svcRefKeys_def newFrontendKey_def newFrontendKeySrc_def
      split: sum.splits if_splits)

lemma fold_upd_keys:
  "fold (\<lambda>k r. r(k \<mapsto> v)) ks ref k' = (if k' \<in> set ks then Some v else ref k')"
  by (induction ks arbitrary: ref) auto

lemma svcMapToIPPortProtoMap_loop_zero_src:
  "svcMapToIPPortProtoMap_loop s svcs keys ref = Inr idx \<Longrightarrow> idx k \<noteq> None \<Longrightarrow>
   ref k \<noteq> None \<or> fk_src k = ZeroCIDR (ipFamily s)"
proof (induction keys arbitrary: ref)
  case Nil
  then show ?case by simp
next
  case (Cons key keys)
  show ?case
  proof (cases "svcs key")
    case None
    then show ?thesis using Cons by simp
  next
    case (Some svc)
    show ?thesis
    proof (cases "svcRefKeys s svc")
      case (Inl e)
      then show ?thesis using Cons.prems Some by simp
    next
      case (Inr ks)
      then have "svcMapToIPPortProtoMap_loop s svcs keys (fold (\<lambda>k r. r(k \<mapsto> (key, svc))) ks ref) = Inr idx"
        using Cons.prems Some by simp
      from Cons.IH [OF this Cons.prems(2)]
      show ?thesis using svcRefKeys_zero_src [OF Inr, of k]
        by (auto simp: fold_upd_keys split: if_splits)
    qed
  qed
qed

text \<open>
  The index of \<^verbatim>\<open>svcMapToIPPortProtoMap\<close> holds only keys with the zero src-CIDR, so
  \<^verbatim>\<open>startupBuildPrev\<close> leaves a frontend with any other src-CIDR before it calls
  \<^verbatim>\<open>matchBpfSvc\<close>.
\<close>

lemma svcMapToIPPortProtoMap_zero_src:
  assumes "svcMapToIPPortProtoMap env s svcs = Inr idx" and "fk_src k \<noteq> ZeroCIDR (ipFamily s)"
  shows "idx k = None"
proof (rule ccontr)
  assume "idx k \<noteq> None"
  from svcMapToIPPortProtoMap_loop_zero_src [OF assms(1) [unfolded svcMapToIPPortProtoMap_def] this]
  show False using assms(2) by simp
qed

lemma startupBuildPrev_step_skips_src:
  "svcMapToIPPortProtoMap env s svcs = Inr idx \<Longrightarrow> fk_src k \<noteq> ZeroCIDR (ipFamily s) \<Longrightarrow>
   startupBuildPrev_step state idx k v a = Inr a"
  using svcMapToIPPortProtoMap_zero_src [of env s svcs idx k]
  by (simp add: startupBuildPrev_step_def)











subsection \<open>Backend slots: locals first\<close>

lemma writeBackends_frame:
  "(\<And>j. j < length xs \<Longrightarrow> k \<noteq> NewNATBackendKey i (of_nat (c + j))) \<Longrightarrow>
   Desired (bpfEps (writeBackends i c xs s)) k = Desired (bpfEps s) k"
proof (induction xs arbitrary: c s)
  case Nil
  then show ?case by simp
next
  case (Cons x xs)
  have a: "k \<noteq> NewNATBackendKey i (of_nat c)" using Cons.prems [of 0] by simp
  have b: "\<And>j. j < length xs \<Longrightarrow> k \<noteq> NewNATBackendKey i (of_nat (Suc c + j))"
    using Cons.prems [of "Suc _"] by simp
  show ?case using Cons.IH [OF b] a by (simp add: writeSvcBackend_Desired)
qed

lemma of_nat_32_inj:
  assumes "a < 2 ^ 32" and "b < 2 ^ 32" and "(of_nat a :: 32 word) = of_nat b"
  shows "a = b"
proof -
  have "take_bit LENGTH(32) a = take_bit LENGTH(32) b"
    using assms(3) by (simp only: word_of_nat_eq_iff)
  moreover have "take_bit LENGTH(32) a = a"
    using assms(1) by (simp only: take_bit_nat_eq_self_iff len_num1 len_bit0 mult_1_right) simp
  moreover have "take_bit LENGTH(32) b = b"
    using assms(2) by (simp only: take_bit_nat_eq_self_iff len_num1 len_bit0 mult_1_right) simp
  ultimately show ?thesis by simp
qed

lemma writeBackends_hit:
  "c + length xs \<le> 2 ^ 32 \<Longrightarrow> j < length xs \<Longrightarrow>
   Desired (bpfEps (writeBackends i c xs s)) (NewNATBackendKey i (of_nat (c + j))) =
     Some (backendOf (xs ! j))"
proof (induction xs arbitrary: c j s)
  case Nil
  then show ?case by simp
next
  case (Cons x xs)
  show ?case
  proof (cases j)
    case 0
    have "Desired (bpfEps (writeBackends i (Suc c) xs (writeSvcBackend i (of_nat c) x s)))
            (NewNATBackendKey i (of_nat c)) =
          Desired (bpfEps (writeSvcBackend i (of_nat c) x s)) (NewNATBackendKey i (of_nat c))"
    proof (rule writeBackends_frame)
      fix j' assume "j' < length xs"
      then have "c < 2 ^ 32" "Suc c + j' < 2 ^ 32" using Cons.prems by simp_all
      then have "(of_nat c :: 32 word) \<noteq> of_nat (Suc c + j')"
        using of_nat_32_inj by fastforce
      then show "NewNATBackendKey i (of_nat c) \<noteq> NewNATBackendKey i (of_nat (Suc c + j'))"
        by (simp add: NewNATBackendKey_def)
    qed
    then show ?thesis using 0 by (simp add: writeSvcBackend_Desired)
  next
    case (Suc j')
    then show ?thesis using Cons.IH [of "Suc c" j'] Cons.prems by simp
  qed
qed


lemma writeSvcBackend_frame [simp]:
  "ipFamily (writeSvcBackend i x ep s) = ipFamily s"
  "bpfSvcs (writeSvcBackend i x ep s) = bpfSvcs s"
  "excludedCIDRs (writeSvcBackend i x ep s) = excludedCIDRs s"
  by (simp_all add: writeSvcBackend_def setDesiredEp_def Let_def split: option.splits)

lemma writeBackends_frame_fields [simp]:
  "ipFamily (writeBackends i c xs s) = ipFamily s"
  "bpfSvcs (writeBackends i c xs s) = bpfSvcs s"
  "excludedCIDRs (writeBackends i c xs s) = excludedCIDRs s"
  by (induction xs arbitrary: c s) simp_all

lemma getSvcNATKey_cong: "ipFamily s' = ipFamily s \<Longrightarrow> getSvcNATKey s' svc = getSvcNATKey s svc"
  by (simp add: getSvcNATKey_def newFrontendKey_def newFrontendKeySrc_def split: sum.splits)

lemma writeSvc_None:
  assumes "writeSvc svc i c l f s = (None, s')"
  shows "\<exists>key fl. getSvcNATKey s svc = Inr key \<and> bpfEps s' = bpfEps s \<and>
           Desired (bpfSvcs s') =
             (Desired (bpfSvcs s))(key \<mapsto> NewNATValueWithFlags i (of_nat c) (of_nat l) (affinityTimeo svc) fl)"
  using assms
  by (auto simp: writeSvc_def setDesiredSvc_def Desired_Set_def Let_def
      split: sum.splits option.splits if_splits)

lemma of_nat_32_le:
  assumes "l \<le> c" and "c < 2 ^ 32"
  shows "(of_nat l :: 32 word) \<le> of_nat c"
proof -
  have c: "take_bit LENGTH(32) c = c"
    using assms(2) by (simp only: take_bit_nat_eq_self_iff len_num1 len_bit0 mult_1_right) simp
  have "l < 2 ^ 32" using assms by simp
  then have l: "take_bit LENGTH(32) l = l"
    by (simp only: take_bit_nat_eq_self_iff len_num1 len_bit0 mult_1_right) simp
  show ?thesis using assms(1) by (simp only: word_of_nat_less_eq_iff c l)
qed

lemma length_ready_le: "length (readyLocal eps) + length (readyRemote eps) \<le> length eps"
proof -
  have "length (readyLocal eps) + length (readyRemote eps) = length (filter ep_IsReady eps)"
    unfolding readyLocal_def readyRemote_def
    by (induction eps) auto
  then show ?thesis by (simp add: le_trans [OF _ length_filter_le])
qed

text \<open>
  C2. When \<^verbatim>\<open>updateService\<close> succeeds on a list of fewer than \<open>2^32\<close> endpoints, it
  returns as \<open>local\<close> the number of ready local endpoints and as \<open>cnt\<close> that number
  plus the number of ready endpoints that are not local; slot \<open>j\<close> of the service id, for
  \<open>j < local\<close>, holds the \<open>j\<close>-th ready local endpoint, and slot \<open>local + j\<close> holds the
  \<open>j\<close>-th ready endpoint that is not local; the frontend value it writes carries these
  two numbers, and its local-count is at most its count.
\<close>

theorem updateService_locals_first:
  assumes ok: "updateService skey sinfo i eps s = (Inr (cnt, local), s')"
      and len: "length eps < 2 ^ 32"
  shows "local = length (readyLocal eps) \<and>
         cnt = local + length (readyRemote eps) \<and>
         local \<le> cnt \<and>
         (\<forall>j<local. Desired (bpfEps s') (NewNATBackendKey i (of_nat j)) =
              Some (backendOf (readyLocal eps ! j))) \<and>
         (\<forall>j<length (readyRemote eps).
              Desired (bpfEps s') (NewNATBackendKey i (of_nat (local + j))) =
              Some (backendOf (readyRemote eps ! j))) \<and>
         (\<exists>key v. getSvcNATKey s sinfo = Inr key \<and> Desired (bpfSvcs s') key = Some v \<and>
              fv_id v = i \<and> fv_count v = of_nat cnt \<and> fv_localCount v = of_nat local \<and>
              fv_localCount v \<le> fv_count v)"
proof -
  define rl where "rl = readyLocal eps"
  define rr where "rr = readyRemote eps"
  define s1 where "s1 = (if sessionAffinityType sinfo = ServiceAffinityClientIP
                then s\<lparr>stickyEps := (stickyEps s)(i \<mapsto> {})\<rparr> else s)"
  define s2 where "s2 = writeBackends i 0 rl s1"
  define s3 where "s3 = writeBackends i (length rl) rr s2"
  define fl where "fl = (if nodeLocalInternal sinfo then {NATFlgInternalLocal} else {})"
  have bound: "length rl + length rr < 2 ^ 32"
    using length_ready_le [of eps] len unfolding rl_def rr_def by linarith
  from ok have "\<exists>s4. writeSvc sinfo i (length rl + length rr) (length rl) fl s3 = (None, s4) \<and>
      cnt = length rl + length rr \<and> local = length rl \<and>
      bpfEps s' = bpfEps s4 \<and> bpfSvcs s' = bpfSvcs s4"
    unfolding updateService_def Let_def updateService_local_eq updateService_remote_eq
      rl_def rr_def s3_def s2_def s1_def fl_def
    by (auto split: prod.splits option.splits if_splits)
  then obtain s4 where w: "writeSvc sinfo i (length rl + length rr) (length rl) fl s3 = (None, s4)"
    and cnt: "cnt = length rl + length rr" and local: "local = length rl"
    and eps': "bpfEps s' = bpfEps s4" and svcs': "bpfSvcs s' = bpfSvcs s4"
    by blast
  from writeSvc_None [OF w] obtain key f where
    key: "getSvcNATKey s3 sinfo = Inr key" and eps4: "bpfEps s4 = bpfEps s3" and
    d4: "Desired (bpfSvcs s4) =
      (Desired (bpfSvcs s3))(key \<mapsto> NewNATValueWithFlags i (of_nat (length rl + length rr))
         (of_nat (length rl)) (affinityTimeo sinfo) f)"
    by blast
  have fam: "ipFamily s3 = ipFamily s" by (simp add: s3_def s2_def s1_def)
  have key0: "getSvcNATKey s sinfo = Inr key" using key getSvcNATKey_cong [OF fam] by simp
  have locals: "Desired (bpfEps s') (NewNATBackendKey i (of_nat j)) = Some (backendOf (rl ! j))"
    if j: "j < length rl" for j
  proof -
    have "Desired (bpfEps s3) (NewNATBackendKey i (of_nat j)) =
          Desired (bpfEps s2) (NewNATBackendKey i (of_nat j))"
      unfolding s3_def
    proof (rule writeBackends_frame)
      fix j' assume "j' < length rr"
      then have "j < 2 ^ 32" "length rl + j' < 2 ^ 32" using j bound by simp_all
      then have "(of_nat j :: 32 word) \<noteq> of_nat (length rl + j')"
        using of_nat_32_inj [of j "length rl + j'"] j by auto
      then show "NewNATBackendKey i (of_nat j) \<noteq> NewNATBackendKey i (of_nat (length rl + j'))"
        by (simp add: NewNATBackendKey_def)
    qed
    also have "\<dots> = Some (backendOf (rl ! j))"
      unfolding s2_def using writeBackends_hit [of 0 rl j i s1] j bound by simp
    finally show ?thesis by (simp add: eps' eps4)
  qed
  have remotes: "Desired (bpfEps s') (NewNATBackendKey i (of_nat (length rl + j))) =
      Some (backendOf (rr ! j))" if j: "j < length rr" for j
    unfolding eps' eps4 s3_def using writeBackends_hit [of "length rl" rr j i s2] j bound by simp
  have le: "(of_nat (length rl) :: 32 word) \<le> of_nat (length rl + length rr)"
    by (rule of_nat_32_le) (use bound in simp_all)
  show ?thesis
    using locals remotes key0 le
    by (simp add: cnt local svcs' d4 NewNATValueWithFlags_def rl_def [symmetric] rr_def [symmetric])
qed


lemma updateService_epsA:
  "fst (updateService (getSvcKey ''default/a:http'' None) svcA 0 epsA (emptySyncer 4)) = Inr (3, 1)"
  by (simp add: updateService_def updateService_local_eq updateService_remote_eq Let_def
      readyLocal_def readyRemote_def epsA_def mkEp_def writeSvc_def getSvcNATKey_def svcA_def
      plainService_def ProtoV1ToInt_def split: prod.splits option.splits)

theorem updateService_locals_first_witness:
  "length epsA < 2 ^ 32 \<and>
   fst (updateService (getSvcKey ''default/a:http'' None) svcA 0 epsA (emptySyncer 4)) = Inr (3, 1) \<and>
   Desired (bpfEps (snd (updateService (getSvcKey ''default/a:http'' None) svcA 0 epsA (emptySyncer 4))))
     (NewNATBackendKey 0 0) = Some \<lparr>bv_addr = IP4 0x02000001, bv_port = 8080\<rparr> \<and>
   Desired (bpfEps (snd (updateService (getSvcKey ''default/a:http'' None) svcA 0 epsA (emptySyncer 4))))
     (NewNATBackendKey 0 1) = Some \<lparr>bv_addr = IP4 0x02000002, bv_port = 8080\<rparr> \<and>
   Desired (bpfEps (snd (updateService (getSvcKey ''default/a:http'' None) svcA 0 epsA (emptySyncer 4))))
     (NewNATBackendKey 0 2) = Some \<lparr>bv_addr = IP4 0x02000003, bv_port = 8080\<rparr>"
proof -
  let ?r = "updateService (getSvcKey ''default/a:http'' None) svcA 0 epsA (emptySyncer 4)"
  have len: "length epsA < 2 ^ 32" by (simp add: epsA_def)
  have run: "?r = (Inr (3, 1), snd ?r)"
    using updateService_epsA by (simp add: prod_eq_iff)
  have rl: "readyLocal epsA = [mkEp (IP4 0x02000001) 8080 True True False]"
    by (simp add: readyLocal_def epsA_def mkEp_def)
  have rr: "readyRemote epsA = [mkEp (IP4 0x02000002) 8080 False True False,
      mkEp (IP4 0x02000003) 8080 False True False]"
    by (simp add: readyRemote_def epsA_def mkEp_def)
  note t = updateService_locals_first [OF run len]
  from t have l: "\<forall>j<1. Desired (bpfEps (snd ?r)) (NewNATBackendKey 0 (of_nat j)) =
              Some (backendOf (readyLocal epsA ! j))" by blast
  from t have r: "\<forall>j<length (readyRemote epsA).
              Desired (bpfEps (snd ?r)) (NewNATBackendKey 0 (of_nat (1 + j))) =
              Some (backendOf (readyRemote epsA ! j))" by blast
  from l have "Desired (bpfEps (snd ?r)) (NewNATBackendKey 0 0) =
      Some \<lparr>bv_addr = IP4 0x02000001, bv_port = 8080\<rparr>"
    by (simp add: rl backendOf_def mkEp_def)
  moreover from r [rule_format, of 0] have "Desired (bpfEps (snd ?r)) (NewNATBackendKey 0 1) =
      Some \<lparr>bv_addr = IP4 0x02000002, bv_port = 8080\<rparr>"
    by (simp add: rr backendOf_def mkEp_def)
  moreover from r [rule_format, of 1] have "Desired (bpfEps (snd ?r)) (NewNATBackendKey 0 2) =
      Some \<lparr>bv_addr = IP4 0x02000003, bv_port = 8080\<rparr>"
    by (simp add: rr backendOf_def mkEp_def)
  ultimately show ?thesis using len updateService_epsA by blast
qed

subsection \<open>The affinity sweep\<close>

lemma cleanupSticky_step_iff:
  "cleanupSticky_step s now key val = IterDelete \<longleftrightarrow> staleAffinity s now key val"
  by (simp add: cleanupSticky_step_def staleAffinity_def split: option.splits)

lemma cleanupSticky_step_keep:
  "cleanupSticky_step s now key val = IterNone \<longleftrightarrow> \<not> staleAffinity s now key val"
  using cleanupSticky_step_iff [of s now key val]
  by (cases "cleanupSticky_step s now key val") simp_all

text \<open>
  C7. The function the sweep passes to the iterator returns \<^verbatim>\<open>IterDelete\<close> for a
  record exactly when the record is stale in the words of the specification (its
  frontend-affinity projection is not among the sticky services, or its backend is not
  among the sticky endpoints of that service id, or now minus its timestamp exceeds the
  timeout). When the iteration does not fail, the sweep returns no error and leaves in
  the affinity table exactly the records that are not stale; when it fails, the sweep
  returns the wrapped error. An \<^verbatim>\<open>Apply\<close> whose cold start or promotion and whose
  \<^verbatim>\<open>apply\<close> succeed returns what the sweep returns; when the iteration does not fail
  it returns no error, and the affinity table it leaves holds exactly the records that
  are not stale for the sticky services and endpoints of this pass.
\<close>

theorem cleanupSticky_sweep:
  "(\<forall>key val. cleanupSticky_step s (env_now env) key val = IterDelete \<longleftrightarrow>
        staleAffinity s (env_now env) key val) \<and>
   (env_affIterFails env = None \<longrightarrow>
      cleanupSticky env s =
        (None, s\<lparr>bpfAff := filter (\<lambda>(key, val). \<not> staleAffinity s (env_now env) key val) (bpfAff s)\<rparr>)) \<and>
   (env_affIterFails env \<noteq> None \<longrightarrow>
      fst (cleanupSticky env s) = Some (Err ''NAT affinity map iterator failed'')) \<and>
   (\<forall>s0 s1. ApplyStart env state s = (None, s0) \<longrightarrow>
      apply0 env state (s0\<lparr>stickySvcs := Map.empty, stickyEps := Map.empty\<rparr>) = (None, s1) \<longrightarrow>
      fst (Apply env state s) = fst (cleanupSticky env (s1\<lparr>synced := True\<rparr>))) \<and>
   (\<forall>s0 s1. ApplyStart env state s = (None, s0) \<longrightarrow>
      apply0 env state (s0\<lparr>stickySvcs := Map.empty, stickyEps := Map.empty\<rparr>) = (None, s1) \<longrightarrow>
      env_affIterFails env = None \<longrightarrow>
      fst (Apply env state s) = None \<and>
      bpfAff (snd (Apply env state s)) =
        filter (\<lambda>(key, val). \<not> staleAffinity s1 (env_now env) key val) (bpfAff s1))"
proof -
  have k: "cleanupSticky_step (s1\<lparr>synced := True\<rparr>) now key val = IterNone \<longleftrightarrow>
      \<not> staleAffinity s1 now key val" for s1 now key val
  proof -
    have "staleAffinity (s1\<lparr>synced := True\<rparr>) now key val = staleAffinity s1 now key val"
      by (simp add: staleAffinity_def split: option.splits)
    then show ?thesis
      using cleanupSticky_step_keep [of "s1\<lparr>synced := True\<rparr>" now key val] by simp
  qed
  have 5: "fst (Apply env state s) = None \<and>
      bpfAff (snd (Apply env state s)) =
        filter (\<lambda>(key, val). \<not> staleAffinity s1 (env_now env) key val) (bpfAff s1)"
    if "ApplyStart env state s = (None, s0)"
      and "apply0 env state (s0\<lparr>stickySvcs := Map.empty, stickyEps := Map.empty\<rparr>) = (None, s1)"
      and "env_affIterFails env = None" for s0 s1
    using that by (simp add: Apply_def cleanupSticky_def Iter_def k)
  have 14: "(\<forall>key val. cleanupSticky_step s (env_now env) key val = IterDelete \<longleftrightarrow>
        staleAffinity s (env_now env) key val) \<and>
   (env_affIterFails env = None \<longrightarrow>
      cleanupSticky env s =
        (None, s\<lparr>bpfAff := filter (\<lambda>(key, val). \<not> staleAffinity s (env_now env) key val) (bpfAff s)\<rparr>)) \<and>
   (env_affIterFails env \<noteq> None \<longrightarrow>
      fst (cleanupSticky env s) = Some (Err ''NAT affinity map iterator failed'')) \<and>
   (\<forall>s0 s1. ApplyStart env state s = (None, s0) \<longrightarrow>
      apply0 env state (s0\<lparr>stickySvcs := Map.empty, stickyEps := Map.empty\<rparr>) = (None, s1) \<longrightarrow>
      fst (Apply env state s) = fst (cleanupSticky env (s1\<lparr>synced := True\<rparr>)))"
    by (auto simp: cleanupSticky_step_iff cleanupSticky_step_keep cleanupSticky_def Iter_def Apply_def
      split: option.splits prod.splits)
  from 14 5 show ?thesis by blast
qed


theorem cleanupSticky_sweep_witness:
  "env_affIterFails quietEnv = None \<and>
   bpfAff (snd (cleanupSticky quietEnv stickySyncer)) =
     [affRecord (IP4 1) 80 0x02000001 95000000000] \<and>
   fst (Apply (quietEnv\<lparr>env_affIterFails := Some 0\<rparr>) noState stickySyncer) =
     Some (Err ''NAT affinity map iterator failed'') \<and>
   fst (Apply quietEnv noState stickySyncer) = None \<and>
   bpfAff (snd (Apply quietEnv noState stickySyncer)) = []"
proof -
  let ?env = "quietEnv\<lparr>env_affIterFails := Some 0\<rparr>"
  let ?s0 = "snd (ApplyStart ?env noState stickySyncer)"
  let ?s1 = "snd (apply0 ?env noState (?s0\<lparr>stickySvcs := Map.empty, stickyEps := Map.empty\<rparr>))"
  have none: "env_affIterFails quietEnv = None" by (simp add: quietEnv_def)
  have kept: "bpfAff (snd (cleanupSticky quietEnv stickySyncer)) =
      [affRecord (IP4 1) 80 0x02000001 95000000000]"
    using cleanupSticky_sweep [of stickySyncer quietEnv, THEN conjunct2, THEN conjunct1]
    by (simp add: quietEnv_def stickySyncer_def emptySyncer_def staleAffinity_def affRecord_def
        affFrontend_def affBackend_def seconds_def)
  have start: "ApplyStart ?env noState stickySyncer = (None, ?s0)"
    by (simp add: ApplyStart_def stickySyncer_def emptySyncer_def)
  have run: "apply0 ?env noState (?s0\<lparr>stickySvcs := Map.empty, stickyEps := Map.empty\<rparr>) = (None, ?s1)"
    by (simp add: ApplyStart_def StopExpandNPFixup_def apply0_def applyReset_def applyPhases_def
        svcsApplyDeletionsOnly_def epsApplyUpdatesOnly_def svcsApplyUpdatesOnly_def
        epsApplyDeletionsOnly_def runExpandNPFixup_def quietEnv_def stickySyncer_def emptySyncer_def
        noState_def)
  have fails: "env_affIterFails ?env \<noteq> None" by simp
  have "fst (Apply ?env noState stickySyncer) = fst (cleanupSticky ?env (?s1\<lparr>synced := True\<rparr>))"
    using cleanupSticky_sweep [of stickySyncer ?env noState] start run by blast
  also have "\<dots> = Some (Err ''NAT affinity map iterator failed'')"
    using cleanupSticky_sweep [of "?s1\<lparr>synced := True\<rparr>" ?env noState] fails by blast
  finally have failed: "fst (Apply ?env noState stickySyncer) =
      Some (Err ''NAT affinity map iterator failed'')" .
  let ?t0 = "snd (ApplyStart quietEnv noState stickySyncer)"
  let ?t1 = "snd (apply0 quietEnv noState (?t0\<lparr>stickySvcs := Map.empty, stickyEps := Map.empty\<rparr>))"
  have start': "ApplyStart quietEnv noState stickySyncer = (None, ?t0)"
    by (simp add: ApplyStart_def stickySyncer_def emptySyncer_def)
  have run': "apply0 quietEnv noState (?t0\<lparr>stickySvcs := Map.empty, stickyEps := Map.empty\<rparr>) = (None, ?t1)"
    by (simp add: ApplyStart_def StopExpandNPFixup_def apply0_def applyReset_def applyPhases_def
        svcsApplyDeletionsOnly_def epsApplyUpdatesOnly_def svcsApplyUpdatesOnly_def
        epsApplyDeletionsOnly_def runExpandNPFixup_def quietEnv_def stickySyncer_def emptySyncer_def
        noState_def)
  have st: "stickySvcs ?t1 = Map.empty"
    by (simp add: ApplyStart_def StopExpandNPFixup_def apply0_def applyReset_def applyPhases_def
        svcsApplyDeletionsOnly_def epsApplyUpdatesOnly_def svcsApplyUpdatesOnly_def
        epsApplyDeletionsOnly_def runExpandNPFixup_def quietEnv_def stickySyncer_def emptySyncer_def
        noState_def)
  from cleanupSticky_sweep [of stickySyncer quietEnv noState, THEN conjunct2, THEN conjunct2,
      THEN conjunct2, THEN conjunct2, rule_format, OF start' run' none]
  have swept: "fst (Apply quietEnv noState stickySyncer) = None"
    "bpfAff (snd (Apply quietEnv noState stickySyncer)) = []"
    by (simp_all add: staleAffinity_def st)
  from none kept failed swept show ?thesis by (intro conjI)
qed

subsection \<open>Service ids\<close>

lemma svcA_fields:
  "clusterIP svcA = IP4 0x0A000001" "port svcA = 80" "protocol svcA = ProtocolTCP"
  "nodePort svcA = 0" "sessionAffinityType svcA = ServiceAffinityNone"
  "stickyMaxAgeSeconds svcA = 0" "externalIPs svcA = []" "loadBalancerSourceRanges svcA = []"
  "loadBalancerVIPs svcA = []" "nodeLocalExternal svcA = False" "nodeLocalInternal svcA = False"
  "excludeService svcA = False" "reapTerminatingUDP svcA = False"
  by (simp_all add: svcA_def plainService_def)

lemma ServicePortEqual_svcA: "ServicePortEqual svcA svcA"
  by (simp add: ServicePortEqual_def cidrEqual_def svcA_fields)

text \<open>
  C3. Let the service key be in the previous service map, with the entry \<open>old\<close>, and
  let every id of the previous and of the new service map be below the counter
  \<^verbatim>\<open>nextSvcID\<close> (the 32-bit counter has not wrapped). When \<^verbatim>\<open>applySvc\<close> succeeds, the
  new service map holds an entry for the key, and the id of that entry equals the id of
  \<open>old\<close> exactly when \<^verbatim>\<open>ServicePortEqual\<close> holds between the service of \<open>old\<close> and the
  current one; otherwise the id is the value of the counter, the counter advances by
  one, and the id is strictly greater than every id of the previous and of the new
  service map.
\<close>

theorem applySvc_service_id:
  assumes prev: "prevSvcMap s skey = Some old"
      and below: "idsBelowNext s"
      and ok: "applySvc skey sinfo eps s = (None, s')"
  shows "\<exists>new. newSvcMap s' skey = Some new \<and>
           (info_id new = info_id old \<longleftrightarrow> ServicePortEqual (info_svc old) sinfo) \<and>
           (\<not> ServicePortEqual (info_svc old) sinfo \<longrightarrow>
              info_id new = nextSvcID s \<and> nextSvcID s' = nextSvcID s + 1 \<and>
              (\<forall>info \<in> ran (prevSvcMap s) \<union> ran (newSvcMap s). info_id info < info_id new))"
proof -
  note m = applySvc_newSvcMap [OF ok]
  have o: "info_id old < nextSvcID s"
    using below prev unfolding idsBelowNext_def by (auto simp: ran_def)
  show ?thesis
  proof (cases "ServicePortEqual (info_svc old) sinfo")
    case True
    then show ?thesis using prev by (simp add: m applySvc_id_def)
  next
    case False
    then show ?thesis using prev o below
      by (auto simp: m applySvc_id_def applySvc_reuses_def idsBelowNext_def)
  qed
qed
theorem applySvc_service_id_witness:
  "idsBelowNext prevSyncer \<and>
   ServicePortEqual svcA svcA \<and> \<not> ServicePortEqual svcA (svcA\<lparr>port := 81\<rparr>) \<and>
   map_option info_id (newSvcMap (snd (applySvc (getSvcKey ''default/a:http'' None) svcA epsA
      prevSyncer)) (getSvcKey ''default/a:http'' None)) = Some 7 \<and>
   map_option info_id (newSvcMap (snd (applySvc (getSvcKey ''default/a:http'' None)
      (svcA\<lparr>port := 81\<rparr>) epsA prevSyncer)) (getSvcKey ''default/a:http'' None)) = Some 8"
proof -
  let ?k = "getSvcKey ''default/a:http'' None"
  let ?old = "\<lparr>info_id = 7, info_count = 3, info_localCount = 1, info_svc = svcA\<rparr>"
  have prev: "prevSvcMap prevSyncer ?k = Some ?old" by (simp add: prevSyncer_def)
  have below: "idsBelowNext prevSyncer"
    by (simp add: idsBelowNext_def prevSyncer_def emptySyncer_def)
  have ne: "\<not> ServicePortEqual svcA (svcA\<lparr>port := 81\<rparr>)"
    by (simp add: ServicePortEqual_def svcA_fields)
  have ok1: "applySvc ?k svcA epsA prevSyncer = (None, snd (applySvc ?k svcA epsA prevSyncer))"
    using applySvc_fst [of ?k svcA epsA prevSyncer]
    by (simp add: prod_eq_iff svcA_fields ProtoV1ToInt_def)
  have ok2: "applySvc ?k (svcA\<lparr>port := 81\<rparr>) epsA prevSyncer =
      (None, snd (applySvc ?k (svcA\<lparr>port := 81\<rparr>) epsA prevSyncer))"
    using applySvc_fst [of ?k "svcA\<lparr>port := 81\<rparr>" epsA prevSyncer]
    by (simp add: prod_eq_iff svcA_fields ProtoV1ToInt_def)
  from applySvc_service_id [OF prev below ok1]
  have a: "map_option info_id (newSvcMap (snd (applySvc ?k svcA epsA prevSyncer)) ?k) = Some 7"
    using ServicePortEqual_svcA by auto
  from applySvc_service_id [OF prev below ok2]
  have b: "map_option info_id (newSvcMap (snd (applySvc ?k (svcA\<lparr>port := 81\<rparr>) epsA prevSyncer)) ?k) = Some 8"
    using ne by (auto simp: prevSyncer_def)
  show ?thesis using below ServicePortEqual_svcA ne a b by blast
qed

subsection \<open>Cold start on an inconsistent kernel\<close>

lemma svcMapToIPPortProtoMap_A:
  "svcMapToIPPortProtoMap envA brokenKernel (SvcMap stateA) =
     Inr [keyA \<mapsto> (''default/a:http'', svcA)]"
  by (simp add: svcMapToIPPortProtoMap_def envA_def quietEnv_def stateA_def svcRefKeys_def
      ProtoV1ToIntPanic_def ProtoV1ToInt_def svcA_fields newFrontendKey_def
      newFrontendKeySrc_def brokenKernel_def emptySyncer_def ZeroCIDR_def keyA_def)

lemma matchBpfSvc_A:
  "matchBpfSvc brokenKernel keyA ''default/a:http'' svcA =
     Inr (Some (getSvcKey ''default/a:http'' None))"
  by (simp add: matchBpfSvc_def keyA_def svcA_fields brokenKernel_def emptySyncer_def
      ZeroCIDR_def getSvcKey_def)

lemma startupBuildPrev_step_A:
  "startupBuildPrev_step stateA [keyA \<mapsto> (''default/a:http'', svcA)] keyA (NewNATValue 7 1 0 0)
     (False, brokenKernel) =
   Inr (True, brokenKernel\<lparr>prevSvcMap := [getSvcKey ''default/a:http'' None \<mapsto>
        \<lparr>info_id = 7, info_count = 1, info_localCount = 0, info_svc = svcA\<rparr>],
        nextSvcID := 8, prevEpsMap := [''default/a:http'' \<mapsto> []]\<rparr>)"
  apply (simp add: startupBuildPrev_step_def matchBpfSvc_A)
  apply (simp add: stateA_def getSvcKey_def NewNATValue_def NewNATValueWithFlags_def Let_def)
  apply (simp add: brokenKernel_def emptySyncer_def)
  done

lemma startupBuildPrev_loop_A:
  "startupBuildPrev_loop stateA [keyA \<mapsto> (''default/a:http'', svcA)] [keyA] (False, brokenKernel) =
     Inr (True, brokenKernel\<lparr>prevSvcMap := [getSvcKey ''default/a:http'' None \<mapsto>
        \<lparr>info_id = 7, info_count = 1, info_localCount = 0, info_svc = svcA\<rparr>],
        nextSvcID := 8, prevEpsMap := [''default/a:http'' \<mapsto> []]\<rparr>)"
proof -
  have d: "Dataplane (bpfSvcs brokenKernel) keyA = Some (NewNATValue 7 1 0 0)"
    by (simp add: brokenKernel_def)
  show ?thesis by (simp add: d startupBuildPrev_step_A)
qed

lemma startupBuildPrev_A:
  "startupBuildPrev envA stateA brokenKernel =
     (Some inconsistentError, brokenKernel\<lparr>prevSvcMap := [getSvcKey ''default/a:http'' None \<mapsto>
        \<lparr>info_id = 7, info_count = 1, info_localCount = 0, info_svc = svcA\<rparr>],
        nextSvcID := 8, prevEpsMap := [''default/a:http'' \<mapsto> []]\<rparr>)"
proof -
  have o: "remdups (env_frontendOrder envA) = [keyA]" by (simp add: envA_def)
  show ?thesis
    by (simp add: startupBuildPrev_def svcMapToIPPortProtoMap_A o startupBuildPrev_loop_A
        del: startupBuildPrev_loop.simps)
qed

lemma startupSync_A:
  "startupSync envA stateA brokenKernel =
     (None, brokenKernel\<lparr>prevSvcMap := [getSvcKey ''default/a:http'' None \<mapsto>
        \<lparr>info_id = 7, info_count = 1, info_localCount = 0, info_svc = svcA\<rparr>],
        nextSvcID := 8, prevEpsMap := [''default/a:http'' \<mapsto> []]\<rparr>)"
  by (simp add: startupSync_def loadOrigs_def startupBuildPrev_A inconsistentError_def)
    (simp add: envA_def quietEnv_def)

text \<open>
  C5, at the failing input. The frontend of the kernel names one backend slot and the
  slot is missing: \<^verbatim>\<open>startupBuildPrev\<close> returns the error "found inconsistencies in
  existing BPF maps, will rewrite maps from scratch", \<^verbatim>\<open>startupSync\<close> logs it and
  returns nil. Neither empties the previous maps: the previous service map still holds
  the entry read from the kernel (id 7, count 1), the previous endpoints map holds an
  entry for the service, and \<^verbatim>\<open>applySvc\<close> then reuses id 7 for the service instead of
  issuing a new id, as it would with no previous state.
\<close>

theorem startupSync_keeps_previous_maps:
  "fst (startupBuildPrev envA stateA brokenKernel) = Some inconsistentError \<and>
   fst (startupSync envA stateA brokenKernel) = None \<and>
   prevSvcMap (snd (startupSync envA stateA brokenKernel)) (getSvcKey ''default/a:http'' None) =
     Some \<lparr>info_id = 7, info_count = 1, info_localCount = 0, info_svc = svcA\<rparr> \<and>
   prevEpsMap (snd (startupSync envA stateA brokenKernel)) ''default/a:http'' = Some [] \<and>
   map_option info_id
     (newSvcMap (snd (applySvc (getSvcKey ''default/a:http'' None) svcA epsA
        (snd (startupSync envA stateA brokenKernel)))) (getSvcKey ''default/a:http'' None)) = Some 7 \<and>
   map_option info_id
     (newSvcMap (snd (applySvc (getSvcKey ''default/a:http'' None) svcA epsA
        (brokenKernel\<lparr>nextSvcID := 8\<rparr>))) (getSvcKey ''default/a:http'' None)) = Some 8"
proof -
  let ?k = "getSvcKey ''default/a:http'' None"
  let ?s = "snd (startupSync envA stateA brokenKernel)"
  have ok: "applySvc ?k svcA epsA ?s = (None, snd (applySvc ?k svcA epsA ?s))"
    using applySvc_fst [of ?k svcA epsA ?s] by (simp add: prod_eq_iff svcA_fields ProtoV1ToInt_def)
  have ok': "applySvc ?k svcA epsA (brokenKernel\<lparr>nextSvcID := 8\<rparr>) =
      (None, snd (applySvc ?k svcA epsA (brokenKernel\<lparr>nextSvcID := 8\<rparr>)))"
    using applySvc_fst [of ?k svcA epsA "brokenKernel\<lparr>nextSvcID := 8\<rparr>"]
    by (simp add: prod_eq_iff svcA_fields ProtoV1ToInt_def)
  have a: "applySvc_id ?k svcA ?s = 7"
    by (simp add: applySvc_id_def startupSync_A ServicePortEqual_svcA)
  have b: "applySvc_id ?k svcA (brokenKernel\<lparr>nextSvcID := 8\<rparr>) = 8"
    by (simp add: applySvc_id_def brokenKernel_def emptySyncer_def)
  show ?thesis
    using applySvc_newSvcMap(1) [OF ok] applySvc_newSvcMap(1) [OF ok'] a b
    by (simp add: startupBuildPrev_A startupSync_A)
qed

subsection \<open>The conntrack views\<close>

lemma ConntrackScanStart_loop_step:
  "ConntrackScanStart_loop s (skey # skeys) a =
     (case newSvcMap s skey of
        None \<Rightarrow> ConntrackScanStart_loop s skeys a
      | Some sinfo \<Rightarrow>
          if info_count sinfo = 0 then ConntrackScanStart_loop s skeys a
          else
            (case addActiveEps (info_id sinfo) (info_svc sinfo) (entryEps s skey) a of
               Inl e \<Rightarrow> Inl e
             | Inr a1 \<Rightarrow> ConntrackScanStart_loop s skeys a1))"
  by (simp add: entryEps_def split: option.splits)

lemma addActiveEps_Inr:
  assumes "addActiveEps i svc eps a = Inr a1"
  shows "\<exists>k. servicePortToIPPortProto svc = Inr k \<and> fst a1 = (fst a)(k \<mapsto> i) \<and>
           snd a1 = (if eps = [] then snd a else (snd a)(i \<mapsto> activeSet svc eps))"
  using assms by (auto simp: addActiveEps_def activeSet_def split: sum.splits)

lemma loop_svcs_sound:
  "ConntrackScanStart_loop s keys a = Inr a' \<Longrightarrow> fst a' k = Some i \<Longrightarrow>
   fst a k = Some i \<or>
   (\<exists>skey sinfo. skey \<in> set keys \<and> activeEntry s skey sinfo \<and>
      servicePortToIPPortProto (info_svc sinfo) = Inr k \<and> info_id sinfo = i)"
proof (induction keys arbitrary: a)
  case Nil
  then show ?case by simp
next
  case (Cons key keys)
  show ?case
  proof (cases "\<exists>si. activeEntry s key si")
    case False
    then have e: "ConntrackScanStart_loop s (key # keys) a = ConntrackScanStart_loop s keys a"
      by (auto simp: activeEntry_def split: option.splits)
    from Cons.IH [OF Cons.prems(1) [unfolded e] Cons.prems(2)] show ?thesis by auto
  next
    case True
    then obtain si where s: "newSvcMap s key = Some si" "info_count si \<noteq> 0"
      by (auto simp: activeEntry_def)
    from Cons.prems(1) s obtain a1 where
      a1: "addActiveEps (info_id si) (info_svc si) (entryEps s key) a = Inr a1"
      and l: "ConntrackScanStart_loop s keys a1 = Inr a'"
      by (auto simp: ConntrackScanStart_loop_step simp del: ConntrackScanStart_loop.simps
          split: sum.splits)
    from addActiveEps_Inr [OF a1] obtain k0 where
      k0: "servicePortToIPPortProto (info_svc si) = Inr k0" "fst a1 = (fst a)(k0 \<mapsto> info_id si)"
      by blast
    from Cons.IH [OF l Cons.prems(2)] show ?thesis
    proof
      assume f: "fst a1 k = Some i"
      show ?thesis
      proof (cases "k = k0")
        case True
        then have "info_id si = i" using f k0 by simp
        then have "key \<in> set (key # keys) \<and> activeEntry s key si \<and>
          servicePortToIPPortProto (info_svc si) = Inr k \<and> info_id si = i"
          using s k0 True by (simp add: activeEntry_def)
        then show ?thesis by blast
      next
        case False
        then show ?thesis using f k0 by simp
      qed
    next
      assume "\<exists>skey sinfo. skey \<in> set keys \<and> activeEntry s skey sinfo \<and>
          servicePortToIPPortProto (info_svc sinfo) = Inr k \<and> info_id sinfo = i"
      then show ?thesis by auto
    qed
  qed
qed

lemma loop_svcs_mono:
  "ConntrackScanStart_loop s keys a = Inr a' \<Longrightarrow> fst a k \<noteq> None \<Longrightarrow> fst a' k \<noteq> None"
proof (induction keys arbitrary: a)
  case Nil
  then show ?case by simp
next
  case (Cons skey keys)
  show ?case
  proof (cases "\<exists>sinfo. activeEntry s skey sinfo")
    case False
    then have "ConntrackScanStart_loop s (skey # keys) a = ConntrackScanStart_loop s keys a"
      by (auto simp: activeEntry_def split: option.splits)
    then show ?thesis using Cons by simp
  next
    case True
    then obtain sinfo where s: "newSvcMap s skey = Some sinfo" "info_count sinfo \<noteq> 0"
      by (auto simp: activeEntry_def)
    from Cons.prems(1) s obtain a1 where
      a1: "addActiveEps (info_id sinfo) (info_svc sinfo) (entryEps s skey) a = Inr a1"
      and l: "ConntrackScanStart_loop s keys a1 = Inr a'"
      by (auto simp: ConntrackScanStart_loop_step simp del: ConntrackScanStart_loop.simps
          split: sum.splits)
    from addActiveEps_Inr [OF a1] have "fst a1 k \<noteq> None" using Cons.prems(2) by auto
    then show ?thesis using Cons.IH [OF l] by simp
  qed
qed

lemma loop_svcs_complete:
  "ConntrackScanStart_loop s keys a = Inr a' \<Longrightarrow> skey \<in> set keys \<Longrightarrow>
   activeEntry s skey sinfo \<Longrightarrow>
   \<exists>k. servicePortToIPPortProto (info_svc sinfo) = Inr k \<and> fst a' k \<noteq> None"
proof (induction keys arbitrary: a)
  case Nil
  then show ?case by simp
next
  case (Cons key keys)
  show ?case
  proof (cases "\<exists>si. activeEntry s key si")
    case False
    then have e: "ConntrackScanStart_loop s (key # keys) a = ConntrackScanStart_loop s keys a"
      by (auto simp: activeEntry_def split: option.splits)
    from False Cons.prems have "skey \<in> set keys" by auto
    then show ?thesis using Cons e by simp
  next
    case True
    then obtain si where s: "newSvcMap s key = Some si" "info_count si \<noteq> 0"
      by (auto simp: activeEntry_def)
    from Cons.prems(1) s obtain a1 where
      a1: "addActiveEps (info_id si) (info_svc si) (entryEps s key) a = Inr a1"
      and l: "ConntrackScanStart_loop s keys a1 = Inr a'"
      by (auto simp: ConntrackScanStart_loop_step simp del: ConntrackScanStart_loop.simps
          split: sum.splits)
    from addActiveEps_Inr [OF a1] obtain k0 where
      k0: "servicePortToIPPortProto (info_svc si) = Inr k0" "fst a1 = (fst a)(k0 \<mapsto> info_id si)"
      by blast
    show ?thesis
    proof (cases "skey = key")
      case True
      then have "sinfo = si" using Cons.prems(3) s by (simp add: activeEntry_def)
      moreover have "fst a' k0 \<noteq> None" using loop_svcs_mono [OF l, of k0] k0 by simp
      ultimately show ?thesis using k0 by blast
    next
      case False
      then have "skey \<in> set keys" using Cons.prems(2) by simp
      then show ?thesis using Cons.IH [OF l _ Cons.prems(3)] by blast
    qed
  qed
qed

lemma loop_eps_sound:
  "ConntrackScanStart_loop s keys a = Inr a' \<Longrightarrow> snd a' i = Some S \<Longrightarrow>
   snd a i = Some S \<or>
   (\<exists>skey sinfo. skey \<in> set keys \<and> activeEntry s skey sinfo \<and> info_id sinfo = i \<and>
      entryEps s skey \<noteq> [] \<and> S = activeSet (info_svc sinfo) (entryEps s skey))"
proof (induction keys arbitrary: a)
  case Nil
  then show ?case by simp
next
  case (Cons key keys)
  show ?case
  proof (cases "\<exists>si. activeEntry s key si")
    case False
    then have e: "ConntrackScanStart_loop s (key # keys) a = ConntrackScanStart_loop s keys a"
      by (auto simp: activeEntry_def split: option.splits)
    from Cons.IH [OF Cons.prems(1) [unfolded e] Cons.prems(2)] show ?thesis by auto
  next
    case True
    then obtain si where s: "newSvcMap s key = Some si" "info_count si \<noteq> 0"
      by (auto simp: activeEntry_def)
    from Cons.prems(1) s obtain a1 where
      a1: "addActiveEps (info_id si) (info_svc si) (entryEps s key) a = Inr a1"
      and l: "ConntrackScanStart_loop s keys a1 = Inr a'"
      by (auto simp: ConntrackScanStart_loop_step simp del: ConntrackScanStart_loop.simps
          split: sum.splits)
    from addActiveEps_Inr [OF a1] have
      k0: "snd a1 = (if entryEps s key = [] then snd a
                     else (snd a)(info_id si \<mapsto> activeSet (info_svc si) (entryEps s key)))"
      by blast
    from Cons.IH [OF l Cons.prems(2)] show ?thesis
    proof
      assume f: "snd a1 i = Some S"
      show ?thesis
      proof (cases "entryEps s key \<noteq> [] \<and> info_id si = i")
        case True
        then have "S = activeSet (info_svc si) (entryEps s key)" using f k0 by simp
        then have "key \<in> set (key # keys) \<and> activeEntry s key si \<and> info_id si = i \<and>
          entryEps s key \<noteq> [] \<and> S = activeSet (info_svc si) (entryEps s key)"
          using s True by (simp add: activeEntry_def)
        then show ?thesis by blast
      next
        case False
        then have "snd a i = Some S" using f k0 by (auto split: if_splits)
        then show ?thesis by simp
      qed
    next
      assume "\<exists>skey sinfo. skey \<in> set keys \<and> activeEntry s skey sinfo \<and> info_id sinfo = i \<and>
        entryEps s skey \<noteq> [] \<and> S = activeSet (info_svc sinfo) (entryEps s skey)"
      then show ?thesis by auto
    qed
  qed
qed

lemma loop_eps_mono:
  "ConntrackScanStart_loop s keys a = Inr a' \<Longrightarrow> snd a i \<noteq> None \<Longrightarrow> snd a' i \<noteq> None"
proof (induction keys arbitrary: a)
  case Nil
  then show ?case by simp
next
  case (Cons key keys)
  show ?case
  proof (cases "\<exists>sinfo. activeEntry s key sinfo")
    case False
    then have "ConntrackScanStart_loop s (key # keys) a = ConntrackScanStart_loop s keys a"
      by (auto simp: activeEntry_def split: option.splits)
    then show ?thesis using Cons by simp
  next
    case True
    then obtain si where s: "newSvcMap s key = Some si" "info_count si \<noteq> 0"
      by (auto simp: activeEntry_def)
    from Cons.prems(1) s obtain a1 where
      a1: "addActiveEps (info_id si) (info_svc si) (entryEps s key) a = Inr a1"
      and l: "ConntrackScanStart_loop s keys a1 = Inr a'"
      by (auto simp: ConntrackScanStart_loop_step simp del: ConntrackScanStart_loop.simps
          split: sum.splits)
    from addActiveEps_Inr [OF a1] have "snd a1 i \<noteq> None" using Cons.prems(2) by auto
    then show ?thesis using Cons.IH [OF l] by simp
  qed
qed

lemma loop_eps_complete:
  "ConntrackScanStart_loop s keys a = Inr a' \<Longrightarrow> skey \<in> set keys \<Longrightarrow>
   activeEntry s skey sinfo \<Longrightarrow> entryEps s skey \<noteq> [] \<Longrightarrow> snd a' (info_id sinfo) \<noteq> None"
proof (induction keys arbitrary: a)
  case Nil
  then show ?case by simp
next
  case (Cons key keys)
  show ?case
  proof (cases "\<exists>si. activeEntry s key si")
    case False
    then have e: "ConntrackScanStart_loop s (key # keys) a = ConntrackScanStart_loop s keys a"
      by (auto simp: activeEntry_def split: option.splits)
    from False Cons.prems have "skey \<in> set keys" by auto
    then show ?thesis using Cons e by simp
  next
    case True
    then obtain si where s: "newSvcMap s key = Some si" "info_count si \<noteq> 0"
      by (auto simp: activeEntry_def)
    from Cons.prems(1) s obtain a1 where
      a1: "addActiveEps (info_id si) (info_svc si) (entryEps s key) a = Inr a1"
      and l: "ConntrackScanStart_loop s keys a1 = Inr a'"
      by (auto simp: ConntrackScanStart_loop_step simp del: ConntrackScanStart_loop.simps
          split: sum.splits)
    from addActiveEps_Inr [OF a1] have
      k0: "snd a1 = (if entryEps s key = [] then snd a
                     else (snd a)(info_id si \<mapsto> activeSet (info_svc si) (entryEps s key)))"
      by blast
    show ?thesis
    proof (cases "skey = key")
      case True
      then have "sinfo = si" using Cons.prems(3) s by (simp add: activeEntry_def)
      then have "snd a1 (info_id sinfo) \<noteq> None" using k0 Cons.prems(4) True by simp
      then show ?thesis using loop_eps_mono [OF l] by simp
    next
      case False
      then have "skey \<in> set keys" using Cons.prems(2) by simp
      then show ?thesis using Cons.IH [OF l _ Cons.prems(3) Cons.prems(4)] by blast
    qed
  qed
qed

lemma ConntrackScanStart_Inr:
  assumes "ConntrackScanStart order s = Inr s'"
  shows "\<exists>a'. ConntrackScanStart_loop s (remdups order) (Map.empty, Map.empty) = Inr a' \<and>
           s' = s\<lparr>activeSvcsMap := Some (fst a'), activeEpsMap := Some (snd a')\<rparr>"
  using assms by (auto simp: ConntrackScanStart_def split: sum.splits)

text \<open>
  C10, as amended. After \<^verbatim>\<open>ConntrackScanStart\<close>, for every entry of the new service
  map that the scan visits and whose count is not zero, the (address, port, protocol)
  of the entry's service is in the active services view; every entry of the view maps
  the (address, port, protocol) of such an entry to that entry's id; and
  \<^verbatim>\<open>ConntrackDestIsService\<close> holds exactly when the view has the given (address,
  port, protocol) or has the sentinel node-port IP of the syncer's address family with
  the given port and protocol.
\<close>

theorem ConntrackScanStart_activeSvcs:
  assumes "ConntrackScanStart order s = Inr s'"
  shows "(\<forall>skey sinfo. skey \<in> set order \<longrightarrow> newSvcMap s skey = Some sinfo \<longrightarrow>
            info_count sinfo \<noteq> 0 \<longrightarrow>
            (\<exists>k. servicePortToIPPortProto (info_svc sinfo) = Inr k \<and>
                 activeSvcsLookup s' k \<noteq> None)) \<and>
         (\<forall>k i. activeSvcsLookup s' k = Some i \<longrightarrow>
            (\<exists>skey sinfo. newSvcMap s skey = Some sinfo \<and> info_count sinfo \<noteq> 0 \<and>
               servicePortToIPPortProto (info_svc sinfo) = Inr k \<and> info_id sinfo = i)) \<and>
         (\<forall>a p proto. ConntrackDestIsService s' a p proto \<longleftrightarrow>
            activeSvcsLookup s' \<lparr>ipp_ip = a, ipp_port = uint p, ipp_proto = proto\<rparr> \<noteq> None \<or>
            activeSvcsLookup s'
              \<lparr>ipp_ip = (if ipFamily s = 6 then podNPIPV6 else podNPIP), ipp_port = uint p,
               ipp_proto = proto\<rparr> \<noteq> None)"
proof -
  from ConntrackScanStart_Inr [OF assms] obtain a' where
    l: "ConntrackScanStart_loop s (remdups order) (Map.empty, Map.empty) = Inr a'"
    and s': "s' = s\<lparr>activeSvcsMap := Some (fst a'), activeEpsMap := Some (snd a')\<rparr>"
    by blast
  have look: "activeSvcsLookup s' k = fst a' k" for k by (simp add: activeSvcsLookup_def s')
  have a: "\<exists>k. servicePortToIPPortProto (info_svc sinfo) = Inr k \<and> activeSvcsLookup s' k \<noteq> None"
    if "skey \<in> set order" "newSvcMap s skey = Some sinfo" "info_count sinfo \<noteq> 0" for skey sinfo
    using loop_svcs_complete [OF l, of skey sinfo] that by (simp add: look activeEntry_def)
  have b: "\<exists>skey sinfo. newSvcMap s skey = Some sinfo \<and> info_count sinfo \<noteq> 0 \<and>
               servicePortToIPPortProto (info_svc sinfo) = Inr k \<and> info_id sinfo = i"
    if "activeSvcsLookup s' k = Some i" for k i
    using loop_svcs_sound [OF l, of k i] that by (auto simp: look activeEntry_def)
  have c: "ConntrackDestIsService s' a p proto \<longleftrightarrow>
            activeSvcsLookup s' \<lparr>ipp_ip = a, ipp_port = uint p, ipp_proto = proto\<rparr> \<noteq> None \<or>
            activeSvcsLookup s'
              \<lparr>ipp_ip = (if ipFamily s = 6 then podNPIPV6 else podNPIP), ipp_port = uint p,
               ipp_proto = proto\<rparr> \<noteq> None" for a p proto
    by (auto simp: ConntrackDestIsService_def conntrackGetSvcID_def s' activeSvcsLookup_def
        split: option.splits)
  show ?thesis using a b c by blast
qed

lemma applySvc_newEpsMap:
  assumes "applySvc skey sinfo eps s = (None, s')"
  shows "newEpsMap s' =
     (if hasSvcKeyExtra skey svcTypeNodePortRemote then newEpsMap s
      else (newEpsMap s)(sname skey \<mapsto>
             filter ep_IsLocal eps @ filter (\<lambda>e. \<not> ep_IsLocal e) eps))"
proof -
  let ?sa = "if applySvc_reuses skey sinfo s then s else s\<lparr>nextSvcID := nextSvcID s + 1\<rparr>"
  let ?w = "writeSvc sinfo (applySvc_id skey sinfo s)
     (length (readyLocal eps) + length (readyRemote eps)) (length (readyLocal eps))
     (if nodeLocalInternal sinfo then {NATFlgInternalLocal} else {})
     (updateService_backends (applySvc_id skey sinfo s) sinfo eps ?sa)"
  obtain r4 x where w: "?w = (r4, x)" by (cases ?w)
  then have "x = snd ?w" by simp
  then have x: "newEpsMap x = newEpsMap s" by simp
  show ?thesis
    using assms x unfolding applySvc_unfold updateService_unfold w
    by (auto split: option.splits if_splits)
qed

lemma appliedT_ok:
  "applySvc (getSvcKey ''default/a:http'' None) svcA epsT (emptySyncer 4) = (None, appliedT)"
  using applySvc_fst [of "getSvcKey ''default/a:http'' None" svcA epsT "emptySyncer 4"]
  by (simp add: prod_eq_iff svcA_fields ProtoV1ToInt_def appliedT_def)

lemma appliedT_maps:
  "newSvcMap appliedT = [getSvcKey ''default/a:http'' None \<mapsto>
      \<lparr>info_id = 0, info_count = 1, info_localCount = 0, info_svc = svcA\<rparr>]"
  "newEpsMap appliedT = [''default/a:http'' \<mapsto> epsT]"
  using applySvc_newSvcMap(1) [OF appliedT_ok] applySvc_newEpsMap [OF appliedT_ok]
  by (simp_all add: emptySyncer_def applySvc_id_def updateService_cnt_def readyLocal_def
      readyRemote_def epsT_def mkEp_def hasSvcKeyExtra_def getSvcKey_def)

lemma ConntrackScanStart_appliedT:
  "ConntrackScanStart [getSvcKey ''default/a:http'' None] appliedT = Inr scannedT"
  by (simp add: ConntrackScanStart_def appliedT_maps isSvcKeyDerived_def hasSvcKeyExtra_def
      getSvcKey_def addActiveEps_def servicePortToIPPortProto_def ProtoV1ToIntPanic_def
      ProtoV1ToInt_def svcA_fields epsT_def mkEp_def scannedT_def)

lemma appliedZero_ok:
  "applySvc (getSvcKey ''default/a:http'' None) svcA [] (emptySyncer 4) = (None, appliedZero)"
  using applySvc_fst [of "getSvcKey ''default/a:http'' None" svcA "[]" "emptySyncer 4"]
  by (simp add: prod_eq_iff svcA_fields ProtoV1ToInt_def appliedZero_def)

lemma appliedZero_newSvcMap:
  "newSvcMap appliedZero = [getSvcKey ''default/a:http'' None \<mapsto>
      \<lparr>info_id = 0, info_count = 0, info_localCount = 0, info_svc = svcA\<rparr>]"
  using applySvc_newSvcMap(1) [OF appliedZero_ok]
  by (simp add: emptySyncer_def applySvc_id_def updateService_cnt_def readyLocal_def
      readyRemote_def)

text \<open>
  C10, counterexample. A service without a ready endpoint is applied: its entry of the
  new service map has count 0. \<^verbatim>\<open>ConntrackScanStart\<close> skips the entry, the active
  services view stays empty and \<^verbatim>\<open>ConntrackDestIsService\<close> denies the service's own
  address, port and protocol.
\<close>

theorem ConntrackScanStart_skips_zero_count:
  "applySvc (getSvcKey ''default/a:http'' None) svcA [] (emptySyncer 4) = (None, appliedZero) \<and>
   newSvcMap appliedZero (getSvcKey ''default/a:http'' None) =
     Some \<lparr>info_id = 0, info_count = 0, info_localCount = 0, info_svc = svcA\<rparr> \<and>
   ConntrackScanStart [getSvcKey ''default/a:http'' None] appliedZero =
     Inr (appliedZero\<lparr>activeSvcsMap := Some Map.empty, activeEpsMap := Some Map.empty\<rparr>) \<and>
   \<not> ConntrackDestIsService
       (appliedZero\<lparr>activeSvcsMap := Some Map.empty, activeEpsMap := Some Map.empty\<rparr>)
       (clusterIP svcA) 80 6"
  using appliedZero_ok
  by (simp add: appliedZero_newSvcMap ConntrackScanStart_def ConntrackDestIsService_def
      conntrackGetSvcID_def activeSvcsLookup_def)

theorem ConntrackScanStart_activeSvcs_witness:
  "newSvcMap appliedT (getSvcKey ''default/a:http'' None) =
     Some \<lparr>info_id = 0, info_count = 1, info_localCount = 0, info_svc = svcA\<rparr> \<and>
   ConntrackScanStart [getSvcKey ''default/a:http'' None] appliedT = Inr scannedT \<and>
   ConntrackDestIsService scannedT (IP4 0x0A000001) 80 6"
proof -
  let ?k = "getSvcKey ''default/a:http'' None"
  let ?i = "\<lparr>info_id = 0, info_count = 1, info_localCount = 0, info_svc = svcA\<rparr>"
  have m: "newSvcMap appliedT ?k = Some ?i" by (simp add: appliedT_maps)
  have p: "servicePortToIPPortProto svcA = Inr \<lparr>ipp_ip = IP4 0x0A000001, ipp_port = 80, ipp_proto = 6\<rparr>"
    by (simp add: servicePortToIPPortProto_def ProtoV1ToIntPanic_def ProtoV1ToInt_def svcA_fields)
  note th = ConntrackScanStart_activeSvcs [OF ConntrackScanStart_appliedT]
  have c: "info_count ?i \<noteq> 0" by simp
  have "\<exists>k. servicePortToIPPortProto (info_svc ?i) = Inr k \<and> activeSvcsLookup scannedT k \<noteq> None"
    using th [THEN conjunct1, rule_format, of ?k ?i, OF _ m c] by simp
  then have l: "activeSvcsLookup scannedT \<lparr>ipp_ip = IP4 0x0A000001, ipp_port = 80, ipp_proto = 6\<rparr> \<noteq> None"
    using p by simp
  have u: "uint (80 :: 16 word) = 80" by simp
  have "ConntrackDestIsService scannedT (IP4 0x0A000001) 80 6"
    using th [THEN conjunct2, THEN conjunct2, rule_format, of "IP4 0x0A000001" 80 6] l
    unfolding u by blast
  then show ?thesis using m ConntrackScanStart_appliedT by blast
qed

text \<open>
  C6, counterexample. The service of scenario A is applied with two endpoints, the
  second terminating and not ready. \<^verbatim>\<open>updateService\<close> records both for the service,
  and after \<^verbatim>\<open>ConntrackScanStart\<close> the active endpoints of the service's id contain
  the address and port of the endpoint that is not ready.
\<close>

theorem ConntrackScanStart_keeps_terminating:
  "\<not> ep_IsReady (epsT ! 1) \<and> ep_IsTerminating (epsT ! 1) \<and>
   applySvc (getSvcKey ''default/a:http'' None) svcA epsT (emptySyncer 4) = (None, appliedT) \<and>
   ConntrackScanStart [getSvcKey ''default/a:http'' None] appliedT = Inr scannedT \<and>
   ConntrackFrontendHasBackend scannedT (clusterIP svcA) 80 (ep_IP (epsT ! 1)) 8080 6"
  using appliedT_ok ConntrackScanStart_appliedT
  by (simp add: epsT_def mkEp_def ConntrackFrontendHasBackend_def conntrackGetSvcID_def
      activeSvcsLookup_def scannedT_def svcA_fields)

text \<open>
  C6, as amended. After \<^verbatim>\<open>ConntrackScanStart\<close> the active endpoints view maps an id
  only to the active set of a service entry of the new service map with that id, with a
  count that is not zero and with a list of endpoints that is not empty (a derived entry
  has none; any other entry has the endpoints the new endpoints map records for its
  service name), and every such entry that the scan visits has its id in the view. The
  active set of a service and a list of endpoints is the set of the (address, port) of
  the endpoints of the list, all of them, ready or not, but for the terminating ones
  when the service is UDP and has reap-terminating-UDP set. The list the new endpoints
  map records for a service key that \<^verbatim>\<open>applySvc\<close> applied with success (and that is
  not a remote node port) is the list of the endpoints \<^verbatim>\<open>applySvc\<close> was given, locals
  first.
\<close>

theorem ConntrackScanStart_activeEps:
  assumes "ConntrackScanStart order s = Inr s'"
  shows "(\<exists>m. activeEpsMap s' = Some m \<and>
           (\<forall>i S. m i = Some S \<longrightarrow>
              (\<exists>skey sinfo. newSvcMap s skey = Some sinfo \<and> info_count sinfo \<noteq> 0 \<and>
                 info_id sinfo = i \<and> entryEps s skey \<noteq> [] \<and>
                 S = activeSet (info_svc sinfo) (entryEps s skey))) \<and>
           (\<forall>skey sinfo. skey \<in> set order \<longrightarrow> newSvcMap s skey = Some sinfo \<longrightarrow>
              info_count sinfo \<noteq> 0 \<longrightarrow> entryEps s skey \<noteq> [] \<longrightarrow> m (info_id sinfo) \<noteq> None)) \<and>
         (\<forall>svc eps. activeSet svc eps =
            {\<lparr>ipp_ip = ep_IP ep, ipp_port = ep_Port ep\<rparr> | ep. ep \<in> set eps \<and>
               \<not> (ep_IsTerminating ep \<and> protocol svc = ProtocolUDP \<and> reapTerminatingUDP svc)}) \<and>
         (\<forall>skey sinfo eps s0 s1. applySvc skey sinfo eps s0 = (None, s1) \<longrightarrow>
            \<not> hasSvcKeyExtra skey svcTypeNodePortRemote \<longrightarrow>
            newEpsMap s1 (sname skey) =
              Some (filter ep_IsLocal eps @ filter (\<lambda>e. \<not> ep_IsLocal e) eps))"
proof -
  from ConntrackScanStart_Inr [OF assms] obtain a' where
    l: "ConntrackScanStart_loop s (remdups order) (Map.empty, Map.empty) = Inr a'"
    and s': "s' = s\<lparr>activeSvcsMap := Some (fst a'), activeEpsMap := Some (snd a')\<rparr>"
    by blast
  have m: "activeEpsMap s' = Some (snd a')" by (simp add: s')
  have a: "\<exists>skey sinfo. newSvcMap s skey = Some sinfo \<and> info_count sinfo \<noteq> 0 \<and>
                 info_id sinfo = i \<and> entryEps s skey \<noteq> [] \<and>
                 S = activeSet (info_svc sinfo) (entryEps s skey)"
    if "snd a' i = Some S" for i S
    using loop_eps_sound [OF l that] by (auto simp: activeEntry_def)
  have b: "snd a' (info_id sinfo) \<noteq> None"
    if "skey \<in> set order" "newSvcMap s skey = Some sinfo" "info_count sinfo \<noteq> 0"
      "entryEps s skey \<noteq> []" for skey sinfo
    using loop_eps_complete [OF l, of skey sinfo] that by (simp add: activeEntry_def)
  have c: "activeSet svc eps =
            {\<lparr>ipp_ip = ep_IP ep, ipp_port = ep_Port ep\<rparr> | ep. ep \<in> set eps \<and>
               \<not> (ep_IsTerminating ep \<and> protocol svc = ProtocolUDP \<and> reapTerminatingUDP svc)}"
    for svc eps
    unfolding activeSet_def by auto
  have d: "newEpsMap s1 (sname skey) =
              Some (filter ep_IsLocal eps @ filter (\<lambda>e. \<not> ep_IsLocal e) eps)"
    if "applySvc skey sinfo eps s0 = (None, s1)" "\<not> hasSvcKeyExtra skey svcTypeNodePortRemote"
    for skey sinfo eps s0 s1
    using applySvc_newEpsMap [OF that(1)] that(2) by simp
  have "\<exists>m. activeEpsMap s' = Some m \<and>
           (\<forall>i S. m i = Some S \<longrightarrow>
              (\<exists>skey sinfo. newSvcMap s skey = Some sinfo \<and> info_count sinfo \<noteq> 0 \<and>
                 info_id sinfo = i \<and> entryEps s skey \<noteq> [] \<and>
                 S = activeSet (info_svc sinfo) (entryEps s skey))) \<and>
           (\<forall>skey sinfo. skey \<in> set order \<longrightarrow> newSvcMap s skey = Some sinfo \<longrightarrow>
              info_count sinfo \<noteq> 0 \<longrightarrow> entryEps s skey \<noteq> [] \<longrightarrow> m (info_id sinfo) \<noteq> None)"
    using m a b by blast
  then show ?thesis using c d by blast
qed

theorem ConntrackScanStart_activeEps_witness:
  "ConntrackScanStart [getSvcKey ''default/a:http'' None] appliedT = Inr scannedT \<and>
   entryEps appliedT (getSvcKey ''default/a:http'' None) = epsT \<and>
   (case activeEpsMap scannedT of None \<Rightarrow> None | Some m \<Rightarrow> m 0) = Some (activeSet svcA epsT) \<and>
   activeSet svcA epsT = {\<lparr>ipp_ip = IP4 0x02000001, ipp_port = 8080\<rparr>,
                          \<lparr>ipp_ip = IP4 0x02000002, ipp_port = 8080\<rparr>} \<and>
   activeSet (svcA\<lparr>protocol := ProtocolUDP, reapTerminatingUDP := True\<rparr>) epsT =
     {\<lparr>ipp_ip = IP4 0x02000001, ipp_port = 8080\<rparr>}"
proof -
  let ?k = "getSvcKey ''default/a:http'' None"
  let ?i = "\<lparr>info_id = 0, info_count = 1, info_localCount = 0, info_svc = svcA\<rparr>"
  note th = ConntrackScanStart_activeEps [OF ConntrackScanStart_appliedT]
  have e: "entryEps appliedT ?k = epsT"
    by (simp add: entryEps_def appliedT_maps isSvcKeyDerived_def hasSvcKeyExtra_def getSvcKey_def)
  have ne: "entryEps appliedT ?k \<noteq> []" by (simp add: e epsT_def)
  have mk: "newSvcMap appliedT ?k = Some ?i" by (simp add: appliedT_maps)
  have c: "info_count ?i \<noteq> 0" by simp
  from th [THEN conjunct1] obtain m where mm: "activeEpsMap scannedT = Some m \<and>
           (\<forall>i S. m i = Some S \<longrightarrow>
              (\<exists>skey sinfo. newSvcMap appliedT skey = Some sinfo \<and> info_count sinfo \<noteq> 0 \<and>
                 info_id sinfo = i \<and> entryEps appliedT skey \<noteq> [] \<and>
                 S = activeSet (info_svc sinfo) (entryEps appliedT skey))) \<and>
           (\<forall>skey sinfo. skey \<in> set [?k] \<longrightarrow> newSvcMap appliedT skey = Some sinfo \<longrightarrow>
              info_count sinfo \<noteq> 0 \<longrightarrow> entryEps appliedT skey \<noteq> [] \<longrightarrow> m (info_id sinfo) \<noteq> None)"
    by (rule exE)
  note m = mm [THEN conjunct1]
  note sound = mm [THEN conjunct2, THEN conjunct1, rule_format]
  note complete = mm [THEN conjunct2, THEN conjunct2, rule_format]
  have "m (info_id ?i) \<noteq> None" by (rule complete [OF _ mk c ne]) simp
  then obtain S where S: "m 0 = Some S" by auto
  from sound [OF S] obtain skey sinfo where
    x: "newSvcMap appliedT skey = Some sinfo" "S = activeSet (info_svc sinfo) (entryEps appliedT skey)"
    by blast
  from x(1) have "skey = ?k" "sinfo = ?i" by (auto simp: appliedT_maps split: if_splits)
  then have "S = activeSet svcA epsT" using x(2) e by simp
  then have v: "(case activeEpsMap scannedT of None \<Rightarrow> None | Some m \<Rightarrow> m 0) =
      Some (activeSet svcA epsT)" using m S by simp
  have s1: "activeSet svcA epsT = {\<lparr>ipp_ip = IP4 0x02000001, ipp_port = 8080\<rparr>,
                          \<lparr>ipp_ip = IP4 0x02000002, ipp_port = 8080\<rparr>}"
    by (simp add: activeSet_def epsT_def mkEp_def svcA_fields)
  have s2: "activeSet (svcA\<lparr>protocol := ProtocolUDP, reapTerminatingUDP := True\<rparr>) epsT =
     {\<lparr>ipp_ip = IP4 0x02000001, ipp_port = 8080\<rparr>}"
    by (simp add: activeSet_def epsT_def mkEp_def)
  show ?thesis using ConntrackScanStart_appliedT e v s1 s2 by (intro conjI)
qed

subsection \<open>The node-port fix-up task\<close>

lemma fixupExpand_eq:
  "fixupExpand lk ms c again =
     (c \<or> list_ex (missChanged lk) ms, again @ List.map_filter (missAfter lk) ms)"
proof (induction ms arbitrary: c again)
  case Nil
  show ?case by (simp add: List.map_filter_simps)
next
  case (Cons m ms)
  show ?case
    by (cases "missAfter lk m")
      (auto simp: Cons.IH missChanged_def List.map_filter_simps missAfter_def [symmetric])
qed

lemma fixupWake_eq:
  "fixupWake s misses lk =
     (list_ex (missChanged lk) misses \<and> triggerFn s,
      List.map_filter (missAfter lk) misses,
      List.map_filter (missAfter lk) misses = [])"
  by (simp add: fixupWake_def fixupExpand_eq)

lemma missAfter_unchanged:
  assumes "\<not> missChanged lk m"
  shows "missAfter lk m = Some m"
proof -
  from assms obtain m' where m': "missAfter lk m = Some m'" "miss_eps m = miss_eps m'"
    by (auto simp: missChanged_def split: option.splits)
  from m'(1) have "miss_sname m' = miss_sname m" "miss_sinfo m' = miss_sinfo m"
    "miss_nport m' = miss_nport m"
    by (auto simp: missAfter_def expandNodePorts_def split: prod.splits if_splits)
  with m'(2) have "m' = m" by simp
  then show ?thesis using m'(1) by simp
qed

lemma map_filter_unchanged:
  "\<not> list_ex (missChanged lk) ms \<Longrightarrow> List.map_filter (missAfter lk) ms = ms"
  by (induction ms) (simp_all add: List.map_filter_simps missAfter_unchanged)

lemma missAfter_A:
  "missAfter lkPartial missA = Some missRest"
  "missAfter lkPartial missRest = Some missRest"
  "missAfter lkFull missA = None"
  by (simp_all add: missAfter_def expandNodePorts_def missA_def missRest_def lkPartial_def lkFull_def
      mkEp_def)

lemma missChanged_A:
  "missChanged lkPartial missA" "\<not> missChanged lkPartial missRest" "missChanged lkFull missA"
  by (simp_all add: missChanged_def missAfter_A) (simp_all add: missA_def missRest_def)

text \<open>
  C9, counterexample. The task has one miss with two endpoints and a trigger function is
  set. At the first wake-up the route table resolves the first endpoint only: the
  endpoint set of the miss changed, the trigger is called, and the function given to
  \<^verbatim>\<open>WaitAfter\<close> returns false because a miss is left, so the task does not exit. It
  handles the second wake-up (nothing changed, no trigger) and ends only when it is
  cancelled.
\<close>

theorem fixupTask_triggers_and_stays:
  "missChanged lkPartial missA \<and>
   fixupWake ((emptySyncer 4)\<lparr>triggerFn := True\<rparr>) [missA] lkPartial = (True, [missRest], False) \<and>
   fixupTask ((emptySyncer 4)\<lparr>triggerFn := True\<rparr>) [missA] [lkPartial, lkPartial] =
     ([True, False], FixupCancelled [missRest])"
  by (simp add: fixupWake_eq missChanged_A missAfter_A List.map_filter_simps)

text \<open>
  C9, as amended. At a wake-up the function given to \<^verbatim>\<open>WaitAfter\<close> calls the trigger
  exactly when a trigger function is set and some miss changed (its endpoint set changed
  or it was fully resolved); the misses it keeps are those that are not fully resolved,
  and it returns true exactly when none is kept. The task exits by itself after the
  wake-up only in that case; otherwise it goes on with the misses that are kept, and
  when no miss changed these are the misses it had and the trigger is not called. When
  the task is cancelled it ends with the misses it has.
\<close>

theorem fixupTask_wake:
  "fixupWake s misses lk =
     (list_ex (missChanged lk) misses \<and> triggerFn s,
      List.map_filter (missAfter lk) misses,
      List.map_filter (missAfter lk) misses = []) \<and>
   fixupTask s misses (lk # lks) =
     (if List.map_filter (missAfter lk) misses = []
      then ([list_ex (missChanged lk) misses \<and> triggerFn s], FixupCompleted)
      else ((list_ex (missChanged lk) misses \<and> triggerFn s) #
              fst (fixupTask s (List.map_filter (missAfter lk) misses) lks),
            snd (fixupTask s (List.map_filter (missAfter lk) misses) lks))) \<and>
   (\<not> list_ex (missChanged lk) misses \<longrightarrow> misses \<noteq> [] \<longrightarrow>
      fixupTask s misses (lk # lks) =
        (False # fst (fixupTask s misses lks), snd (fixupTask s misses lks))) \<and>
   fixupTask s misses [] = ([], FixupCancelled misses)"
  by (auto simp: fixupWake_eq map_filter_unchanged split: prod.splits)

theorem fixupTask_wake_witness:
  "\<not> list_ex (missChanged lkPartial) [missRest] \<and> [missRest] \<noteq> [] \<and>
   fixupTask ((emptySyncer 4)\<lparr>triggerFn := True\<rparr>) [missRest] [lkPartial] =
     ([False], FixupCancelled [missRest]) \<and>
   fixupTask ((emptySyncer 4)\<lparr>triggerFn := True\<rparr>) [missA] [lkFull] = ([True], FixupCompleted) \<and>
   fixupTask (emptySyncer 4) [missA] [lkFull] = ([False], FixupCompleted)"
proof -
  let ?s = "(emptySyncer 4)\<lparr>triggerFn := True\<rparr>"
  have n: "\<not> list_ex (missChanged lkPartial) [missRest]" by (simp add: missChanged_A)
  have e: "[missRest] \<noteq> []" by simp
  have a: "fixupTask ?s [missRest] [lkPartial] = ([False], FixupCancelled [missRest])"
    using fixupTask_wake [of ?s "[missRest]" lkPartial "[]", THEN conjunct2, THEN conjunct2,
        THEN conjunct1, rule_format, OF n e]
    by (simp del: fixupTask.simps(2))
  have b: "fixupTask ?s [missA] [lkFull] = ([True], FixupCompleted)"
    using fixupTask_wake [of ?s "[missA]" lkFull "[]", THEN conjunct2, THEN conjunct1]
    by (simp add: missAfter_A missChanged_A List.map_filter_simps del: fixupTask.simps(2))
  have c: "fixupTask (emptySyncer 4) [missA] [lkFull] = ([False], FixupCompleted)"
    using fixupTask_wake [of "emptySyncer 4" "[missA]" lkFull "[]", THEN conjunct2, THEN conjunct1]
    by (simp add: missAfter_A missChanged_A List.map_filter_simps emptySyncer_def
        del: fixupTask.simps(2))
  show ?thesis using n e a b c by (intro conjI)
qed

subsection \<open>Load-balancer source ranges\<close>

lemma lbInfo_keys:
  "getSvcNATKeyLBSrcRange lbSyncer lbInfo = Inr [lbKey]"
  "getSvcNATKey lbSyncer lbInfo = Inr lbKey"
  by (simp_all add: getSvcNATKeyLBSrcRange_def getSvcNATKey_def lbInfo_def lbService_def
      plainService_def lbSyncer_def emptySyncer_def ProtoV1ToInt_def newFrontendKey_def
      newFrontendKeySrc_def ZeroCIDR_def CIDRFromIPNet_def To4_def lbKey_def)

text \<open>
  C4, at a service whose only source range is 0.0.0.0/0. The key
  \<^verbatim>\<open>getSvcNATKeyLBSrcRange\<close> builds for the range is the key \<^verbatim>\<open>getSvcNATKey\<close> builds
  for the zero src-CIDR. \<^verbatim>\<open>applyDerived\<close> returns no error, and of the frontends of
  the load-balancer address the desired state holds only that key, with the black-hole
  count: the range has no frontend with the real value (id 7, count 1, local-count 0).
\<close>

theorem applyDerived_zero_range_blackholed:
  "getSvcNATKeyLBSrcRange lbSyncer lbInfo = Inr [lbKey] \<and>
   getSvcNATKey lbSyncer lbInfo = Inr lbKey \<and>
   fst (applyDerived ''default/lb:http'' svcTypeLoadBalancer lbInfo lbSyncer) = None \<and>
   Desired (bpfSvcs (snd (applyDerived ''default/lb:http'' svcTypeLoadBalancer lbInfo lbSyncer))) =
     [\<lparr>fk_addr = IP4 0x0A000002, fk_port = 80, fk_proto = 6, fk_src = V4CIDR 0 0\<rparr> \<mapsto>
        NewNATValue 7 1 0 0,
      lbKey \<mapsto> NewNATValue 7 BlackHoleCount 0 0]"
proof -
  have k: "getSvcNATKey lbSyncer lbInfo = Inr lbKey" by (rule lbInfo_keys)
  have n: "newSvcMap lbSyncer (getSvcKey ''default/lb:http'' None) =
      Some \<lparr>info_id = 7, info_count = 1, info_localCount = 0, info_svc = lbService\<rparr>"
    by (simp add: lbSyncer_def)
  have f: "ipFamily lbSyncer = 4" "excludedCIDRs lbSyncer = None" "stickyEps lbSyncer = Map.empty"
    by (simp_all add: lbSyncer_def emptySyncer_def)
  have i: "excludeService lbInfo = False" "nodeLocalExternal lbInfo = False"
    "nodeLocalInternal lbInfo = False" "length (loadBalancerSourceRanges lbInfo) = 1"
    by (simp_all add: lbInfo_def lbService_def plainService_def)
  let ?w = "writeSvc lbInfo 7 (Suc 0) 0 {} lbSyncer"
  have w: "?w = (None, setDesiredSvc lbKey (NewNATValueWithFlags 7 1 0 (affinityTimeo lbInfo) {}) lbSyncer)"
    by (simp add: writeSvc_def k f i Let_def setDesiredSvc_def)
  let ?s1 = "setDesiredSvc lbKey (NewNATValueWithFlags 7 1 0 (affinityTimeo lbInfo) {}) lbSyncer"
  have k1: "getSvcNATKey ?s1 lbInfo = Inr lbKey"
    "getSvcNATKeyLBSrcRange ?s1 lbInfo = Inr [lbKey]"
    using lbInfo_keys
    by (simp_all add: getSvcNATKeyLBSrcRange_def getSvcNATKey_def lbInfo_def lbService_def
      plainService_def lbSyncer_def emptySyncer_def ProtoV1ToInt_def newFrontendKey_def
      newFrontendKeySrc_def ZeroCIDR_def CIDRFromIPNet_def To4_def lbKey_def setDesiredSvc_def)
  have r: "writeLBSrcRangeSvcNATKeys lbInfo 7 (Suc 0) 0 {} ?s1 =
      (None, setDesiredSvc lbKey (NewNATValue 7 BlackHoleCount 0 0)
               (setDesiredSvc lbKey (NewNATValueWithFlags 7 1 0 (affinityTimeo lbInfo) {}) ?s1))"
    by (simp add: writeLBSrcRangeSvcNATKeys_def k1 i Let_def)
  have a: "applyDerived ''default/lb:http'' svcTypeLoadBalancer lbInfo lbSyncer =
      (None, (snd (writeLBSrcRangeSvcNATKeys lbInfo 7 (Suc 0) 0 {} ?s1))
         \<lparr>newSvcMap := (newSvcMap (snd (writeLBSrcRangeSvcNATKeys lbInfo 7 (Suc 0) 0 {} ?s1)))
            (getSvcKey ''default/lb:http'' (getSvcKeyExtra svcTypeLoadBalancer (clusterIP lbInfo)) \<mapsto>
             \<lparr>info_id = 7, info_count = 1, info_localCount = 0, info_svc = lbInfo\<rparr>)\<rparr>)"
    unfolding applyDerived_def n by (simp add: i w r Let_def)
  have d: "Desired (bpfSvcs (snd (applyDerived ''default/lb:http'' svcTypeLoadBalancer lbInfo lbSyncer))) =
     [\<lparr>fk_addr = IP4 0x0A000002, fk_port = 80, fk_proto = 6, fk_src = V4CIDR 0 0\<rparr> \<mapsto>
        NewNATValue 7 1 0 0,
      lbKey \<mapsto> NewNATValue 7 BlackHoleCount 0 0]"
    unfolding a r by (simp add: setDesiredSvc_def Desired_Set_def lbSyncer_def)
  show ?thesis using lbInfo_keys a d by simp
qed

subsection \<open>The sync pass keeps the desired state closed\<close>

lemma applyDerived_loop_syncStep: "syncStep s (snd (applyDerived_loop n t infos s))"
proof (induction infos arbitrary: s)
  case Nil
  show ?case by simp
next
  case (Cons info infos)
  obtain r s1 where a: "applyDerived n t info s = (r, s1)" by (cases "applyDerived n t info s")
  have s1: "syncStep s s1" using applyDerived_syncStep [of s n t info] by (simp add: a)
  show ?case
  proof (cases "\<exists>m. r = Some (Panic m)")
    case True
    then show ?thesis using s1 a by auto
  next
    case False
    then have "applyDerived_loop n t (info # infos) s = applyDerived_loop n t infos s1"
      using a by (auto split: option.splits error.splits)
    then show ?thesis using syncStep_trans [OF s1 Cons.IH [of s1]] by simp
  qed
qed

lemma applyExpandedNP_syncStep: "syncStep s (snd (applyExpandedNP n sinfo eps node nport s))"
proof -
  let ?a = "applySvc (getSvcKey n (getSvcKeyExtra svcTypeNodePortRemote node))
              (sinfo\<lparr>clusterIP := node, port := nport\<rparr>) eps s"
  have "snd (applyExpandedNP n sinfo eps node nport s) = snd ?a"
    by (simp add: applyExpandedNP_def Let_def split: prod.splits option.splits)
  then show ?thesis using applySvc_syncStep [of s] by simp
qed

lemma expandAndApplyNodePorts_loop_syncStep:
  "syncStep s (expandAndApplyNodePorts_loop n sinfo nport ipToEp nodes s)"
proof (induction nodes arbitrary: s)
  case Nil
  show ?case by simp
next
  case (Cons node nodes)
  show ?case
  proof (cases "ipToEp node")
    case None
    then show ?thesis using Cons.IH by simp
  next
    case (Some neps)
    then show ?thesis
      using syncStep_trans [OF applyExpandedNP_syncStep Cons.IH] by simp
  qed
qed

lemma expandAndApplyNodePorts_syncStep:
  "syncStep s (snd (expandAndApplyNodePorts env n sinfo eps nport rtLookup s))"
  by (simp add: expandAndApplyNodePorts_def expandAndApplyNodePorts_loop_syncStep
      split: prod.splits)

lemma applyService_syncStep: "syncStep s (snd (snd (applyService env state n svc misses s)))"
proof -
  let ?eps = "applyEps env state n svc"
  obtain r1 s1 where a1: "applySvc (getSvcKey n None) svc ?eps s = (r1, s1)"
    by (cases "applySvc (getSvcKey n None) svc ?eps s")
  have t1: "syncStep s s1" using applySvc_syncStep [of s "getSvcKey n None" svc ?eps] by (simp add: a1)
  let ?l2 = "applyDerived_loop n svcTypeLoadBalancer
                     (map (\<lambda>lbIP. svc\<lparr>clusterIP := lbIP\<rparr>)
                        (filter (\<lambda>lbIP. lbIP \<noteq> NilIP) (loadBalancerVIPs svc))) s1"
  obtain r2 s2 where a2: "?l2 = (r2, s2)" by (cases ?l2)
  have "syncStep s1 (snd ?l2)" by (rule applyDerived_loop_syncStep)
  then have "syncStep s1 s2" by (simp add: a2)
  with t1 have t2: "syncStep s s2" by (rule syncStep_trans)
  let ?l3 = "applyDerived_loop n svcTypeExternalIP
                          (map (\<lambda>extIP. svc\<lparr>clusterIP := extIP\<rparr>) (externalIPs svc)) s2"
  obtain r3 s3 where a3: "?l3 = (r3, s3)" by (cases ?l3)
  have "syncStep s2 (snd ?l3)" by (rule applyDerived_loop_syncStep)
  then have "syncStep s2 s3" by (simp add: a3)
  with t2 have t3: "syncStep s s3" by (rule syncStep_trans)
  let ?l4 = "applyDerived_loop n svcTypeNodePort (nodePortInfos s3 svc) s3"
  obtain r4 s4 where a4: "?l4 = (r4, s4)" by (cases ?l4)
  have "syncStep s3 (snd ?l4)" by (rule applyDerived_loop_syncStep)
  then have "syncStep s3 s4" by (simp add: a4)
  with t3 have t4: "syncStep s s4" by (rule syncStep_trans)
  let ?l5 = "expandAndApplyNodePorts env n svc ?eps (nodePort svc) (rt s4) s4"
  obtain r5 s5 where a5: "?l5 = (r5, s5)" by (cases ?l5)
  have "syncStep s4 (snd ?l5)" by (rule expandAndApplyNodePorts_syncStep)
  then have "syncStep s4 s5" by (simp add: a5)
  with t4 have t5: "syncStep s s5" by (rule syncStep_trans)
  have "snd (snd (applyService env state n svc misses s)) \<in> {s1, s2, s3, s4, s5}"
    unfolding applyService_def Let_def a1
    by (simp add: a2 a3 a4 a5 split: option.splits)
  then show ?thesis using t1 t2 t3 t4 t5 by auto
qed

lemma applyServices_syncStep:
  "syncStep s (snd (snd (applyServices env state ns misses s)))"
proof (induction ns arbitrary: misses s)
  case Nil
  show ?case by simp
next
  case (Cons n ns)
  show ?case
  proof (cases "SvcMap state n")
    case None
    then show ?thesis using Cons.IH by simp
  next
    case (Some svc)
    obtain r m1 s1 where a: "applyService env state n svc misses s = (r, m1, s1)"
      by (cases "applyService env state n svc misses s")
    have t: "syncStep s s1" using applyService_syncStep [of s env state n svc misses] by (simp add: a)
    show ?thesis
    proof (cases r)
      case None
      then show ?thesis using syncStep_trans [OF t Cons.IH [of s1 m1]] Some a by simp
    next
      case (Some e)
      then show ?thesis using t a \<open>SvcMap state n = Some svc\<close> by simp
    qed
  qed
qed

lemma applyReset_syncInv: "syncInv (applyReset s)"
  by (simp add: syncInv_def closedDesired_def svcMapClosed_def applyReset_def Desired_DeleteAll_def)

subsection \<open>The partial applies of the caching map\<close>

lemma ApplyDeletionsOnly_Cons_cases:
  assumes "ApplyDeletionsOnly fails (k0 # ks) m = (failed, done, m')"
  obtains (skip) "Dataplane m k0 = None \<or> Desired m k0 \<noteq> None"
      "ApplyDeletionsOnly fails ks m = (failed, done, m')"
    | (fail) f1 where "Dataplane m k0 \<noteq> None" "Desired m k0 = None" "fails k0" "failed"
      "ApplyDeletionsOnly fails ks m = (f1, done, m')"
    | (wrote) d1 where "Dataplane m k0 \<noteq> None" "Desired m k0 = None" "\<not> fails k0"
      "done = k0 # d1"
      "ApplyDeletionsOnly fails ks (m\<lparr>Dataplane := (Dataplane m)(k0 := None)\<rparr>) = (failed, d1, m')"
proof (cases "Dataplane m k0 \<noteq> None \<and> Desired m k0 = None")
  case False
  then show ?thesis using assms skip by auto
next
  case True
  note t = this
  show ?thesis
  proof (cases "fails k0")
    case True
    obtain f1 d1 m1 where r: "ApplyDeletionsOnly fails ks m = (f1, d1, m1)"
      by (cases "ApplyDeletionsOnly fails ks m")
    with assms t True have "failed" "done = d1" "m' = m1" by simp_all
    with r t True fail show ?thesis by blast
  next
    case False
    let ?m1 = "m\<lparr>Dataplane := (Dataplane m)(k0 := None)\<rparr>"
    obtain f1 d1 m1 where r: "ApplyDeletionsOnly fails ks ?m1 = (f1, d1, m1)"
      by (cases "ApplyDeletionsOnly fails ks ?m1")
    with assms t False have "failed = f1" "done = k0 # d1" "m' = m1" by simp_all
    with r t False wrote show ?thesis by blast
  qed
qed

lemma ApplyDeletionsOnly_Desired:
  "ApplyDeletionsOnly fails ks m = (failed, done, m') \<Longrightarrow> Desired m' = Desired m"
proof (induction ks arbitrary: m failed "done" m')
  case Nil
  then show ?case by simp
next
  case (Cons k0 ks)
  from Cons.prems show ?case
  proof (cases rule: ApplyDeletionsOnly_Cons_cases)
    case skip
    from Cons.IH [OF skip(2)] show ?thesis .
  next
    case (fail f1)
    from Cons.IH [OF fail(5)] show ?thesis .
  next
    case (wrote d1)
    from Cons.IH [OF wrote(5)] show ?thesis by simp
  qed
qed

lemma ApplyDeletionsOnly_replay:
  "ApplyDeletionsOnly fails ks m = (failed, done, m') \<Longrightarrow>
   fold (\<lambda>k d. d(k := None)) done (Dataplane m) = Dataplane m'"
proof (induction ks arbitrary: m failed "done" m')
  case Nil
  then show ?case by simp
next
  case (Cons k0 ks)
  from Cons.prems show ?case
  proof (cases rule: ApplyDeletionsOnly_Cons_cases)
    case skip
    from Cons.IH [OF skip(2)] show ?thesis .
  next
    case (fail f1)
    from Cons.IH [OF fail(5)] show ?thesis .
  next
    case (wrote d1)
    from Cons.IH [OF wrote(5)] show ?thesis by (simp add: wrote(4))
  qed
qed

lemma ApplyDeletionsOnly_done:
  "ApplyDeletionsOnly fails ks m = (failed, done, m') \<Longrightarrow> k \<in> set done \<Longrightarrow> Desired m k = None"
proof (induction ks arbitrary: m failed "done" m')
  case Nil
  then show ?case by simp
next
  case (Cons k0 ks)
  from Cons.prems(1) show ?case
  proof (cases rule: ApplyDeletionsOnly_Cons_cases)
    case skip
    from Cons.IH [OF skip(2) Cons.prems(2)] show ?thesis .
  next
    case (fail f1)
    from Cons.IH [OF fail(5) Cons.prems(2)] show ?thesis .
  next
    case (wrote d1)
    show ?thesis
    proof (cases "k = k0")
      case True
      then show ?thesis using wrote(2) by simp
    next
      case False
      then have "k \<in> set d1" using Cons.prems(2) wrote(4) by simp
      from Cons.IH [OF wrote(5) this] show ?thesis by simp
    qed
  qed
qed

lemma ApplyDeletionsOnly_sub:
  "ApplyDeletionsOnly fails ks m = (failed, done, m') \<Longrightarrow> Dataplane m' k = Some v \<Longrightarrow>
   Dataplane m k = Some v"
proof (induction ks arbitrary: m failed "done" m')
  case Nil
  then show ?case by simp
next
  case (Cons k0 ks)
  from Cons.prems(1) show ?case
  proof (cases rule: ApplyDeletionsOnly_Cons_cases)
    case skip
    from Cons.IH [OF skip(2) Cons.prems(2)] show ?thesis .
  next
    case (fail f1)
    from Cons.IH [OF fail(5) Cons.prems(2)] show ?thesis .
  next
    case (wrote d1)
    from Cons.IH [OF wrote(5) Cons.prems(2)] show ?thesis by (simp split: if_splits)
  qed
qed

lemma ApplyDeletionsOnly_complete:
  "ApplyDeletionsOnly fails ks m = (failed, done, m') \<Longrightarrow> \<not> failed \<Longrightarrow> k \<in> set ks \<Longrightarrow>
   Dataplane m' k = Some v \<Longrightarrow> Desired m k \<noteq> None"
proof (induction ks arbitrary: m failed "done" m')
  case Nil
  then show ?case by simp
next
  case (Cons k0 ks)
  from Cons.prems(1) show ?case
  proof (cases rule: ApplyDeletionsOnly_Cons_cases)
    case skip
    show ?thesis
    proof (cases "k = k0")
      case True
      from ApplyDeletionsOnly_sub [OF skip(2) Cons.prems(4)] skip(1) True show ?thesis by auto
    next
      case False
      then have "k \<in> set ks" using Cons.prems(3) by simp
      from Cons.IH [OF skip(2) Cons.prems(2) this Cons.prems(4)] show ?thesis .
    qed
  next
    case (fail f1)
    then show ?thesis using Cons.prems(2) by simp
  next
    case (wrote d1)
    show ?thesis
    proof (cases "k = k0")
      case True
      from ApplyDeletionsOnly_sub [OF wrote(5) Cons.prems(4)] True show ?thesis by simp
    next
      case False
      then have "k \<in> set ks" using Cons.prems(3) by simp
      from Cons.IH [OF wrote(5) Cons.prems(2) this Cons.prems(4)] show ?thesis by simp
    qed
  qed
qed

lemma ApplyUpdatesOnly_Cons_cases:
  assumes "ApplyUpdatesOnly fails (k0 # ks) m = (failed, done, m')"
  obtains (skip) "Desired m k0 = None \<or> Dataplane m k0 = Desired m k0"
      "ApplyUpdatesOnly fails ks m = (failed, done, m')"
    | (fail) v0 f1 where "Desired m k0 = Some v0" "Dataplane m k0 \<noteq> Some v0" "fails k0" "failed"
      "ApplyUpdatesOnly fails ks m = (f1, done, m')"
    | (wrote) v0 d1 where "Desired m k0 = Some v0" "Dataplane m k0 \<noteq> Some v0" "\<not> fails k0"
      "done = (k0, v0) # d1"
      "ApplyUpdatesOnly fails ks (m\<lparr>Dataplane := (Dataplane m)(k0 \<mapsto> v0)\<rparr>) = (failed, d1, m')"
proof (cases "Desired m k0")
  case None
  then show ?thesis using assms skip by simp
next
  case (Some v0)
  note d = this
  show ?thesis
  proof (cases "Dataplane m k0 = Some v0")
    case True
    then show ?thesis using assms skip d by simp
  next
    case False
    note n = this
    show ?thesis
    proof (cases "fails k0")
      case True
      obtain f1 d1 m1 where r: "ApplyUpdatesOnly fails ks m = (f1, d1, m1)"
        by (cases "ApplyUpdatesOnly fails ks m")
      with assms d n True have "failed" "done = d1" "m' = m1" by simp_all
      with r d n True fail show ?thesis by blast
    next
      case False
      let ?m1 = "m\<lparr>Dataplane := (Dataplane m)(k0 \<mapsto> v0)\<rparr>"
      obtain f1 d1 m1 where r: "ApplyUpdatesOnly fails ks ?m1 = (f1, d1, m1)"
        by (cases "ApplyUpdatesOnly fails ks ?m1")
      with assms d n False have "failed = f1" "done = (k0, v0) # d1" "m' = m1" by simp_all
      with r d n False wrote show ?thesis by blast
    qed
  qed
qed

lemma ApplyUpdatesOnly_Desired:
  "ApplyUpdatesOnly fails ks m = (failed, done, m') \<Longrightarrow> Desired m' = Desired m"
proof (induction ks arbitrary: m failed "done" m')
  case Nil
  then show ?case by simp
next
  case (Cons k0 ks)
  from Cons.prems show ?case
  proof (cases rule: ApplyUpdatesOnly_Cons_cases)
    case skip
    from Cons.IH [OF skip(2)] show ?thesis .
  next
    case (fail v0 f1)
    from Cons.IH [OF fail(5)] show ?thesis .
  next
    case (wrote v0 d1)
    from Cons.IH [OF wrote(5)] show ?thesis by simp
  qed
qed

lemma ApplyUpdatesOnly_replay:
  "ApplyUpdatesOnly fails ks m = (failed, done, m') \<Longrightarrow>
   fold (\<lambda>(k, v) d. d(k \<mapsto> v)) done (Dataplane m) = Dataplane m'"
proof (induction ks arbitrary: m failed "done" m')
  case Nil
  then show ?case by simp
next
  case (Cons k0 ks)
  from Cons.prems show ?case
  proof (cases rule: ApplyUpdatesOnly_Cons_cases)
    case skip
    from Cons.IH [OF skip(2)] show ?thesis .
  next
    case (fail v0 f1)
    from Cons.IH [OF fail(5)] show ?thesis .
  next
    case (wrote v0 d1)
    from Cons.IH [OF wrote(5)] show ?thesis by (simp add: wrote(4))
  qed
qed

lemma ApplyUpdatesOnly_done:
  "ApplyUpdatesOnly fails ks m = (failed, done, m') \<Longrightarrow> (k, v) \<in> set done \<Longrightarrow> Desired m k = Some v"
proof (induction ks arbitrary: m failed "done" m')
  case Nil
  then show ?case by simp
next
  case (Cons k0 ks)
  from Cons.prems(1) show ?case
  proof (cases rule: ApplyUpdatesOnly_Cons_cases)
    case skip
    from Cons.IH [OF skip(2) Cons.prems(2)] show ?thesis .
  next
    case (fail v0 f1)
    from Cons.IH [OF fail(5) Cons.prems(2)] show ?thesis .
  next
    case (wrote v0 d1)
    show ?thesis
    proof (cases "(k, v) = (k0, v0)")
      case True
      then show ?thesis using wrote(1) by simp
    next
      case False
      then have "(k, v) \<in> set d1" using Cons.prems(2) wrote(4) by auto
      from Cons.IH [OF wrote(5) this] show ?thesis by simp
    qed
  qed
qed

lemma ApplyUpdatesOnly_sub:
  "ApplyUpdatesOnly fails ks m = (failed, done, m') \<Longrightarrow> Dataplane m' k = Some v \<Longrightarrow>
   Dataplane m k = Some v \<or> Desired m k = Some v"
proof (induction ks arbitrary: m failed "done" m')
  case Nil
  then show ?case by simp
next
  case (Cons k0 ks)
  from Cons.prems(1) show ?case
  proof (cases rule: ApplyUpdatesOnly_Cons_cases)
    case skip
    from Cons.IH [OF skip(2) Cons.prems(2)] show ?thesis .
  next
    case (fail v0 f1)
    from Cons.IH [OF fail(5) Cons.prems(2)] show ?thesis .
  next
    case (wrote v0 d1)
    from Cons.IH [OF wrote(5) Cons.prems(2)] wrote(1) show ?thesis
      by (cases "k = k0") auto
  qed
qed

lemma ApplyUpdatesOnly_stable:
  "ApplyUpdatesOnly fails ks m = (failed, done, m') \<Longrightarrow> Desired m k = Some v \<Longrightarrow>
   Dataplane m k = Some v \<Longrightarrow> Dataplane m' k = Some v"
proof (induction ks arbitrary: m failed "done" m')
  case Nil
  then show ?case by simp
next
  case (Cons k0 ks)
  from Cons.prems(1) show ?case
  proof (cases rule: ApplyUpdatesOnly_Cons_cases)
    case skip
    from Cons.IH [OF skip(2) Cons.prems(2,3)] show ?thesis .
  next
    case (fail v0 f1)
    from Cons.IH [OF fail(5) Cons.prems(2,3)] show ?thesis .
  next
    case (wrote v0 d1)
    have "k \<noteq> k0" using wrote(1,2) Cons.prems(2,3) by auto
    then show ?thesis using Cons.IH [OF wrote(5)] Cons.prems(2,3) by simp
  qed
qed

lemma ApplyUpdatesOnly_present:
  "ApplyUpdatesOnly fails ks m = (failed, done, m') \<Longrightarrow> Dataplane m k \<noteq> None \<Longrightarrow>
   Dataplane m' k \<noteq> None"
proof (induction ks arbitrary: m failed "done" m')
  case Nil
  then show ?case by simp
next
  case (Cons k0 ks)
  from Cons.prems(1) show ?case
  proof (cases rule: ApplyUpdatesOnly_Cons_cases)
    case skip
    from Cons.IH [OF skip(2) Cons.prems(2)] show ?thesis .
  next
    case (fail v0 f1)
    from Cons.IH [OF fail(5) Cons.prems(2)] show ?thesis .
  next
    case (wrote v0 d1)
    show ?thesis using Cons.IH [OF wrote(5)] Cons.prems(2) by simp
  qed
qed

lemma ApplyUpdatesOnly_complete:
  "ApplyUpdatesOnly fails ks m = (failed, done, m') \<Longrightarrow> \<not> failed \<Longrightarrow> k \<in> set ks \<Longrightarrow>
   Desired m k = Some v \<Longrightarrow> Dataplane m' k = Some v"
proof (induction ks arbitrary: m failed "done" m')
  case Nil
  then show ?case by simp
next
  case (Cons k0 ks)
  from Cons.prems(1) show ?case
  proof (cases rule: ApplyUpdatesOnly_Cons_cases)
    case skip
    show ?thesis
    proof (cases "k = k0")
      case True
      then have "Dataplane m k = Some v" using skip(1) Cons.prems(4) by auto
      from ApplyUpdatesOnly_stable [OF skip(2) Cons.prems(4) this] show ?thesis .
    next
      case False
      then have "k \<in> set ks" using Cons.prems(3) by simp
      from Cons.IH [OF skip(2) Cons.prems(2) this Cons.prems(4)] show ?thesis .
    qed
  next
    case (fail v0 f1)
    then show ?thesis using Cons.prems(2) by simp
  next
    case (wrote v0 d1)
    let ?m1 = "m\<lparr>Dataplane := (Dataplane m)(k0 \<mapsto> v0)\<rparr>"
    show ?thesis
    proof (cases "k = k0")
      case True
      then have "Desired ?m1 k = Some v" "Dataplane ?m1 k = Some v"
        using wrote(1) Cons.prems(4) by simp_all
      from ApplyUpdatesOnly_stable [OF wrote(5) this] show ?thesis .
    next
      case False
      then have "k \<in> set ks" using Cons.prems(3) by simp
      from Cons.IH [OF wrote(5) Cons.prems(2) this] Cons.prems(4) show ?thesis by simp
    qed
  qed
qed

subsection \<open>Logs of kernel writes\<close>

lemma replay_append: "replay (a @ b) K = replay b (replay a K)"
  by (simp add: replay_def)

lemma safeLog_append: "safeLog (a @ b) K = (safeLog a K \<and> safeLog b (replay a K))"
  by (induction a arbitrary: K) (simp_all add: replay_def)

lemma replay_FrontendDelete:
  "replay (map FrontendDelete d) (fe, be) = (fold (\<lambda>k d. d(k := None)) d fe, be)"
  by (induction d arbitrary: fe) (simp_all add: replay_def)

lemma replay_BackendDelete:
  "replay (map BackendDelete d) (fe, be) = (fe, fold (\<lambda>k d. d(k := None)) d be)"
  by (induction d arbitrary: be) (simp_all add: replay_def)

lemma replay_FrontendUpdate:
  "replay (map (\<lambda>(k, v). FrontendUpdate k v) d) (fe, be) = (fold (\<lambda>(k, v) d. d(k \<mapsto> v)) d fe, be)"
  by (induction d arbitrary: fe) (simp_all add: replay_def split: prod.splits)

lemma replay_BackendUpdate:
  "replay (map (\<lambda>(k, v). BackendUpdate k v) d) (fe, be) = (fe, fold (\<lambda>(k, v) d. d(k \<mapsto> v)) d be)"
  by (induction d arbitrary: be) (simp_all add: replay_def split: prod.splits)

lemma safeLog_FrontendDelete: "safeLog (map FrontendDelete d) (fe, be)"
  by (induction d arbitrary: fe) simp_all

lemma safeLog_BackendUpdate: "safeLog (map (\<lambda>(k, v). BackendUpdate k v) d) (fe, be)"
  by (induction d arbitrary: be) (simp_all split: prod.splits)

lemma safeLog_FrontendUpdate:
  "(\<And>k v bk. (k, v) \<in> set d \<Longrightarrow> references v bk \<Longrightarrow> be bk \<noteq> None) \<Longrightarrow>
   safeLog (map (\<lambda>(k, v). FrontendUpdate k v) d) (fe, be)"
proof (induction d arbitrary: fe)
  case Nil
  show ?case by simp
next
  case (Cons x d)
  obtain k v where x: "x = (k, v)" by (cases x)
  have 1: "\<And>bk. references v bk \<Longrightarrow> be bk \<noteq> None" using Cons.prems [of k v] x by simp
  have 2: "safeLog (map (\<lambda>(k, v). FrontendUpdate k v) d) (fe(k \<mapsto> v), be)"
    by (rule Cons.IH) (use Cons.prems in auto)
  show ?case using 1 2 by (simp add: x)
qed

lemma safeLog_BackendDelete:
  "(\<And>bk k v. bk \<in> set d \<Longrightarrow> fe k = Some v \<Longrightarrow> \<not> references v bk) \<Longrightarrow>
   safeLog (map BackendDelete d) (fe, be)"
proof (induction d arbitrary: be)
  case Nil
  show ?case by simp
next
  case (Cons bk d)
  have 1: "\<And>k v. fe k = Some v \<Longrightarrow> \<not> references v bk" using Cons.prems [of bk] by simp
  have 2: "safeLog (map BackendDelete d) (fe, be(bk := None))"
    by (rule Cons.IH) (use Cons.prems in auto)
  show ?case using 1 2 by simp
qed

lemma sorted_const: "(\<And>x. x \<in> set xs \<Longrightarrow> f x = (c::nat)) \<Longrightarrow> sorted (map f xs)"
  by (induction xs) auto

lemma fourPhases_phases:
  "fourPhases (map FrontendDelete a @ map (\<lambda>(k, v). BackendUpdate k v) b @
               map (\<lambda>(k, v). FrontendUpdate k v) c @ map BackendDelete d)"
proof -
  have 1: "sorted (map phaseRank (map FrontendDelete a))"
    by (rule sorted_const [where c = 0]) auto
  have 2: "sorted (map phaseRank (map (\<lambda>(k, v). BackendUpdate k v) b))"
    by (rule sorted_const [where c = 1]) auto
  have 3: "sorted (map phaseRank (map (\<lambda>(k, v). FrontendUpdate k v) c))"
    by (rule sorted_const [where c = 2]) auto
  have 4: "sorted (map phaseRank (map BackendDelete d))"
    by (rule sorted_const [where c = 3]) auto
  show ?thesis
    unfolding fourPhases_def map_append sorted_append
    using 1 2 3 4 by (auto split: prod.splits)
qed

lemma references_slots:
  "referencesOK be v \<longleftrightarrow> (\<forall>bk. references v bk \<longrightarrow> be bk \<noteq> None)"
proof
  assume r: "referencesOK be v"
  show "\<forall>bk. references v bk \<longrightarrow> be bk \<noteq> None"
  proof (intro allI impI)
    fix bk
    assume b: "references v bk"
    then have "slotsPresent be (fv_id v) (fv_count v)" using r
      by (simp add: references_def referencesOK_def)
    moreover have "bk = NewNATBackendKey (fv_id v) (bk_idx bk)"
      using b by (simp add: references_def NewNATBackendKey_def)
    ultimately show "be bk \<noteq> None" using b unfolding slotsPresent_def references_def by metis
  qed
next
  assume a: "\<forall>bk. references v bk \<longrightarrow> be bk \<noteq> None"
  show "referencesOK be v"
  proof (cases "fv_count v = BlackHoleCount")
    case True
    then show ?thesis by (simp add: referencesOK_def)
  next
    case False
    have "be (NewNATBackendKey (fv_id v) x) \<noteq> None" if "x < fv_count v" for x
    proof -
      have "references v (NewNATBackendKey (fv_id v) x)"
        using that False by (simp add: references_def NewNATBackendKey_def)
      with a show ?thesis by blast
    qed
    then show ?thesis by (simp add: referencesOK_def slotsPresent_def)
  qed
qed

lemma svcsApplyDeletionsOnly_eq:
  "ApplyDeletionsOnly (env_frontendFails env) (env_frontendOrder env) (bpfSvcs s) = (f, d, m) \<Longrightarrow>
   svcsApplyDeletionsOnly env s =
     (if f then Some dataplaneError else None,
      s\<lparr>bpfSvcs := m, kernelLog := kernelLog s @ map FrontendDelete d\<rparr>)"
  by (simp add: svcsApplyDeletionsOnly_def)

lemma epsApplyUpdatesOnly_eq:
  "ApplyUpdatesOnly (env_backendFails env) (env_backendOrder env) (bpfEps s) = (f, d, m) \<Longrightarrow>
   epsApplyUpdatesOnly env s =
     (if f then Some dataplaneError else None,
      s\<lparr>bpfEps := m, kernelLog := kernelLog s @ map (\<lambda>(k, v). BackendUpdate k v) d\<rparr>)"
  by (simp add: epsApplyUpdatesOnly_def)

lemma svcsApplyUpdatesOnly_eq:
  "ApplyUpdatesOnly (env_frontendFails env) (env_frontendOrder env) (bpfSvcs s) = (f, d, m) \<Longrightarrow>
   svcsApplyUpdatesOnly env s =
     (if f then Some dataplaneError else None,
      s\<lparr>bpfSvcs := m, kernelLog := kernelLog s @ map (\<lambda>(k, v). FrontendUpdate k v) d\<rparr>)"
  by (simp add: svcsApplyUpdatesOnly_def)

lemma epsApplyDeletionsOnly_eq:
  "ApplyDeletionsOnly (env_backendFails env) (env_backendOrder env) (bpfEps s) = (f, d, m) \<Longrightarrow>
   epsApplyDeletionsOnly env s =
     (if f then Some dataplaneError else None,
      s\<lparr>bpfEps := m, kernelLog := kernelLog s @ map BackendDelete d\<rparr>)"
  by (simp add: epsApplyDeletionsOnly_def)

lemma applyPhases_writes:
  assumes cl: "closedDesired sp"
    and cf: "dom (Dataplane (bpfSvcs sp)) \<union> dom (Desired (bpfSvcs sp)) \<subseteq> set (env_frontendOrder env)"
    and cb: "dom (Desired (bpfEps sp)) \<subseteq> set (env_backendOrder env)"
  shows "\<exists>new. kernelLog (snd (applyPhases env sp)) = kernelLog sp @ new \<and> fourPhases new \<and>
           safeLog new (kernelOf sp) \<and> replay new (kernelOf sp) = kernelOf (snd (applyPhases env sp))"
proof -
  let ?ff = "env_frontendFails env" and ?fo = "env_frontendOrder env"
  let ?bf = "env_backendFails env" and ?bo = "env_backendOrder env"
  let ?fe = "Dataplane (bpfSvcs sp)" and ?be = "Dataplane (bpfEps sp)"
  obtain f1 d1 m1 where p1: "ApplyDeletionsOnly ?ff ?fo (bpfSvcs sp) = (f1, d1, m1)"
    by (cases "ApplyDeletionsOnly ?ff ?fo (bpfSvcs sp)")
  define s1 where "s1 = sp\<lparr>bpfSvcs := m1, kernelLog := kernelLog sp @ map FrontendDelete d1\<rparr>"
  have e1: "svcsApplyDeletionsOnly env sp = (if f1 then Some dataplaneError else None, s1)"
    using svcsApplyDeletionsOnly_eq [OF p1] by (simp add: s1_def)
  obtain f2 d2 m2 where p2: "ApplyUpdatesOnly ?bf ?bo (bpfEps sp) = (f2, d2, m2)"
    by (cases "ApplyUpdatesOnly ?bf ?bo (bpfEps sp)")
  define s2 where "s2 = s1\<lparr>bpfEps := m2, kernelLog := kernelLog s1 @ map (\<lambda>(k, v). BackendUpdate k v) d2\<rparr>"
  have e2: "epsApplyUpdatesOnly env s1 = (if f2 then Some dataplaneError else None, s2)"
    using epsApplyUpdatesOnly_eq [of env s1 f2 d2 m2] p2 by (simp add: s1_def s2_def)
  obtain f3 d3 m3 where p3: "ApplyUpdatesOnly ?ff ?fo m1 = (f3, d3, m3)"
    by (cases "ApplyUpdatesOnly ?ff ?fo m1")
  define s3 where "s3 = s2\<lparr>bpfSvcs := m3, kernelLog := kernelLog s2 @ map (\<lambda>(k, v). FrontendUpdate k v) d3\<rparr>"
  have e3: "svcsApplyUpdatesOnly env s2 = (if f3 then Some dataplaneError else None, s3)"
    using svcsApplyUpdatesOnly_eq [of env s2 f3 d3 m3] p3 by (simp add: s1_def s2_def s3_def)
  obtain f4 d4 m4 where p4: "ApplyDeletionsOnly ?bf ?bo m2 = (f4, d4, m4)"
    by (cases "ApplyDeletionsOnly ?bf ?bo m2")
  define s4 where "s4 = s3\<lparr>bpfEps := m4, kernelLog := kernelLog s3 @ map BackendDelete d4\<rparr>"
  have e4: "epsApplyDeletionsOnly env s3 = (if f4 then Some dataplaneError else None, s4)"
    using epsApplyDeletionsOnly_eq [of env s3 f4 d4 m4] p4 by (simp add: s1_def s2_def s3_def s4_def)
  let ?L1 = "map FrontendDelete d1"
  let ?L2 = "map (\<lambda>(k, v). BackendUpdate k v) d2"
  let ?L3 = "map (\<lambda>(k, v). FrontendUpdate k v) d3"
  let ?L4 = "map BackendDelete d4"
  have k1: "replay ?L1 (?fe, ?be) = (Dataplane m1, ?be)"
    using ApplyDeletionsOnly_replay [OF p1] by (simp add: replay_FrontendDelete)
  have k2: "replay ?L2 (Dataplane m1, ?be) = (Dataplane m1, Dataplane m2)"
    using ApplyUpdatesOnly_replay [OF p2] by (simp add: replay_BackendUpdate)
  have k3: "replay ?L3 (Dataplane m1, Dataplane m2) = (Dataplane m3, Dataplane m2)"
    using ApplyUpdatesOnly_replay [OF p3] by (simp add: replay_FrontendUpdate)
  have k4: "replay ?L4 (Dataplane m3, Dataplane m2) = (Dataplane m3, Dataplane m4)"
    using ApplyDeletionsOnly_replay [OF p4] by (simp add: replay_BackendDelete)
  have dm1: "Desired m1 = Desired (bpfSvcs sp)" by (rule ApplyDeletionsOnly_Desired [OF p1])
  have dm2: "Desired m2 = Desired (bpfEps sp)" by (rule ApplyUpdatesOnly_Desired [OF p2])
  have safe3: "Dataplane m2 bk \<noteq> None"
    if n2: "\<not> f2" and d: "(k, v) \<in> set d3" and r: "references v bk" for k v bk
  proof -
    have "Desired (bpfSvcs sp) k = Some v" using ApplyUpdatesOnly_done [OF p3 d] dm1 by simp
    then have "referencesOK (Desired (bpfEps sp)) v" using cl unfolding closedDesired_def by blast
    then have "Desired (bpfEps sp) bk \<noteq> None" using r unfolding references_slots by blast
    then obtain bv where bv: "Desired (bpfEps sp) bk = Some bv" by blast
    then have "bk \<in> set ?bo" using cb by blast
    from ApplyUpdatesOnly_complete [OF p2 n2 this bv] show ?thesis by simp
  qed
  have safe4: "\<not> references v bk"
    if n1: "\<not> f1" and n3: "\<not> f3" and d: "bk \<in> set d4" and fe: "Dataplane m3 k = Some v" for bk k v
  proof
    assume r: "references v bk"
    have nd: "Desired (bpfEps sp) bk = None" using ApplyDeletionsOnly_done [OF p4 d] dm2 by simp
    have "Desired (bpfSvcs sp) k = Some v"
    proof -
      from ApplyUpdatesOnly_sub [OF p3 fe] dm1
      consider "Dataplane m1 k = Some v" | "Desired (bpfSvcs sp) k = Some v" by auto
      then show ?thesis
      proof cases
        case 1
        have 0: "Dataplane (bpfSvcs sp) k = Some v" by (rule ApplyDeletionsOnly_sub [OF p1 1])
        then have in1: "k \<in> set ?fo" using cf by blast
        from ApplyDeletionsOnly_complete [OF p1 n1 in1 1]
        obtain v' where v': "Desired (bpfSvcs sp) k = Some v'" by blast
        then have "Desired m1 k = Some v'" using dm1 by simp
        from ApplyUpdatesOnly_complete [OF p3 n3 in1 this] fe have "v' = v" by simp
        with v' show ?thesis by simp
      next
        case 2
        then show ?thesis .
      qed
    qed
    then have "referencesOK (Desired (bpfEps sp)) v" using cl unfolding closedDesired_def by blast
    then have "Desired (bpfEps sp) bk \<noteq> None" using r unfolding references_slots by blast
    with nd show False by simp
  qed
  have fp1: "fourPhases ?L1" using fourPhases_phases [of d1 "[]" "[]" "[]"] by simp
  have fp2: "fourPhases (?L1 @ ?L2)" using fourPhases_phases [of d1 d2 "[]" "[]"] by simp
  have fp3: "fourPhases (?L1 @ ?L2 @ ?L3)" using fourPhases_phases [of d1 d2 d3 "[]"] by simp
  have fp4: "fourPhases (?L1 @ ?L2 @ ?L3 @ ?L4)" by (rule fourPhases_phases)
  have sf1: "safeLog ?L1 (?fe, ?be)" by (rule safeLog_FrontendDelete)
  have sf2: "safeLog ?L2 (Dataplane m1, ?be)" by (rule safeLog_BackendUpdate)
  show ?thesis
  proof (cases f1)
    case True
    then have a: "applyPhases env sp = (Some dataplaneError, s1)" by (simp add: applyPhases_def e1)
    have "kernelLog s1 = kernelLog sp @ ?L1" "kernelOf s1 = (Dataplane m1, ?be)"
      by (simp_all add: s1_def kernelOf_def)
    then show ?thesis using fp1 sf1 k1 unfolding a by (intro exI [of _ ?L1]) (simp add: kernelOf_def)
  next
    case False
    note n1 = this
    show ?thesis
    proof (cases f2)
      case True
      then have a: "applyPhases env sp = (Some dataplaneError, s2)"
        using n1 by (simp add: applyPhases_def e1 e2)
      have "kernelLog s2 = kernelLog sp @ ?L1 @ ?L2" "kernelOf s2 = (Dataplane m1, Dataplane m2)"
        by (simp_all add: s1_def s2_def kernelOf_def)
      then show ?thesis using fp2 sf1 sf2 k1 k2 unfolding a
        by (intro exI [of _ "?L1 @ ?L2"]) (simp add: kernelOf_def safeLog_append replay_append)
    next
      case False
      note n2 = this
      have sf3: "safeLog ?L3 (Dataplane m1, Dataplane m2)"
        by (rule safeLog_FrontendUpdate) (rule safe3 [OF n2])
      show ?thesis
      proof (cases f3)
        case True
        then have a: "applyPhases env sp = (Some dataplaneError, s3)"
          using n1 n2 by (simp add: applyPhases_def e1 e2 e3)
        have "kernelLog s3 = kernelLog sp @ ?L1 @ ?L2 @ ?L3" "kernelOf s3 = (Dataplane m3, Dataplane m2)"
          by (simp_all add: s1_def s2_def s3_def kernelOf_def)
        then show ?thesis using fp3 sf1 sf2 sf3 k1 k2 k3 unfolding a
          by (intro exI [of _ "?L1 @ ?L2 @ ?L3"]) (simp add: kernelOf_def safeLog_append replay_append)
      next
        case False
        note n3 = this
        have sf4: "safeLog ?L4 (Dataplane m3, Dataplane m2)"
          by (rule safeLog_BackendDelete) (rule safe4 [OF n1 n3])
        have a: "applyPhases env sp = (if f4 then Some dataplaneError else None, s4)"
          using n1 n2 n3 by (simp add: applyPhases_def e1 e2 e3 e4)
        have "kernelLog s4 = kernelLog sp @ ?L1 @ ?L2 @ ?L3 @ ?L4" "kernelOf s4 = (Dataplane m3, Dataplane m4)"
          by (simp_all add: s1_def s2_def s3_def s4_def kernelOf_def)
        then show ?thesis using fp4 sf1 sf2 sf3 sf4 k1 k2 k3 k4 unfolding a
          by (intro exI [of _ "?L1 @ ?L2 @ ?L3 @ ?L4"])
            (simp add: kernelOf_def safeLog_append replay_append)
      qed
    qed
  qed
qed

subsection \<open>The four phases of Apply\<close>

lemma kernelFrame_refl [simp]: "kernelFrame s s"
  by (simp add: kernelFrame_def)

lemma kernelFrame_trans: "kernelFrame s s1 \<Longrightarrow> kernelFrame s1 s2 \<Longrightarrow> kernelFrame s s2"
  by (simp add: kernelFrame_def)

lemma syncFrame_kernelFrame: "syncFrame s s' \<Longrightarrow> kernelFrame s s'"
  by (simp add: syncFrame_def kernelFrame_def kernelOf_def)

lemma startupBuildPrev_step_frame:
  "startupBuildPrev_step state svcRef svck svcv a = Inr a1 \<Longrightarrow> kernelFrame (snd a) (snd a1)"
  by (auto simp: startupBuildPrev_step_def Let_def kernelFrame_def kernelOf_def
      split: option.splits prod.splits sum.splits if_splits)

lemma startupBuildPrev_loop_frame:
  "startupBuildPrev_loop state svcRef ks a = Inr a1 \<Longrightarrow> kernelFrame (snd a) (snd a1)"
proof (induction ks arbitrary: a)
  case Nil
  then show ?case by simp
next
  case (Cons k ks)
  show ?case
  proof (cases "Dataplane (bpfSvcs (snd a)) k")
    case None
    then show ?thesis using Cons by simp
  next
    case (Some svcv)
    show ?thesis
    proof (cases "startupBuildPrev_step state svcRef k svcv a")
      case (Inl e)
      then show ?thesis using Cons.prems Some by simp
    next
      case (Inr a2)
      then have "startupBuildPrev_loop state svcRef ks a2 = Inr a1" using Cons.prems Some by simp
      from kernelFrame_trans [OF startupBuildPrev_step_frame [OF Inr] Cons.IH [OF this]]
      show ?thesis .
    qed
  qed
qed

lemma startupBuildPrev_frame: "kernelFrame s (snd (startupBuildPrev env state s))"
proof (cases "svcMapToIPPortProtoMap env s (SvcMap state)")
  case (Inl e)
  then show ?thesis by (simp add: startupBuildPrev_def)
next
  case (Inr svcRef)
  show ?thesis
  proof (cases "startupBuildPrev_loop state svcRef (remdups (env_frontendOrder env)) (False, s)")
    case (Inl e)
    then show ?thesis using Inr by (simp add: startupBuildPrev_def)
  next
    case (Inr a1)
    from startupBuildPrev_loop_frame [OF Inr] have "kernelFrame s (snd a1)" by simp
    then show ?thesis using Inr \<open>svcMapToIPPortProtoMap env s (SvcMap state) = Inr svcRef\<close>
      by (auto simp: startupBuildPrev_def split: prod.splits)
  qed
qed

lemma startupSync_frame: "kernelFrame s (snd (startupSync env state s))"
proof -
  obtain r s2 where b: "startupBuildPrev env state s = (r, s2)"
    by (cases "startupBuildPrev env state s")
  have "kernelFrame s s2" using startupBuildPrev_frame [of s env state] by (simp add: b)
  then show ?thesis
    by (auto simp: startupSync_def loadOrigs_def b split: option.splits error.splits)
qed

lemma ApplyStart_frame: "kernelFrame s (snd (ApplyStart env state s))"
  using startupSync_frame [of s env state]
  by (simp add: ApplyStart_def StopExpandNPFixup_def kernelFrame_def kernelOf_def)

lemma passStart_frame: "kernelFrame s (passStart env state s)"
  using ApplyStart_frame [of s env state]
  by (simp add: passStart_def applyReset_def Desired_DeleteAll_def kernelFrame_def kernelOf_def)

lemma passEnd_frame: "kernelFrame s (passEnd env state s)"
proof -
  have "syncStep (passStart env state s) (passEnd env state s)"
    unfolding passEnd_def by (rule applyServices_syncStep)
  then have "kernelFrame (passStart env state s) (passEnd env state s)"
    by (simp add: syncStep_def syncFrame_kernelFrame)
  with passStart_frame show ?thesis by (rule kernelFrame_trans)
qed

lemma passEnd_closed: "closedDesired (passEnd env state s)"
proof -
  have "syncStep (passStart env state s) (passEnd env state s)"
    unfolding passEnd_def by (rule applyServices_syncStep)
  moreover have "syncInv (passStart env state s)"
    unfolding passStart_def by (rule applyReset_syncInv)
  ultimately show ?thesis by (simp add: syncStep_def syncInv_def)
qed

lemma cleanupSticky_frame: "kernelFrame s (snd (cleanupSticky env s))"
  by (simp add: cleanupSticky_def kernelFrame_def kernelOf_def split: prod.splits option.splits)

lemma applyPhases_runUntilError:
  "applyPhases env sp =
     runUntilError [svcsApplyDeletionsOnly env, epsApplyUpdatesOnly env, svcsApplyUpdatesOnly env,
                    epsApplyDeletionsOnly env] sp"
  by (simp add: applyPhases_def split: prod.splits option.splits)

text \<open>What Apply returns, by the first step that fails.\<close>

lemma Apply_cases:
  obtains (start) "\<not> passOK env state s" "kernelFrame s (snd (Apply env state s))"
    | (phases) "passOK env state s"
        "kernelFrame (snd (applyPhases env (passEnd env state s))) (snd (Apply env state s))"
        "\<And>e. fst (applyPhases env (passEnd env state s)) = Some e \<Longrightarrow> fst (Apply env state s) = Some e"
proof -
  obtain r0 s0 where a0: "ApplyStart env state s = (r0, s0)" by (cases "ApplyStart env state s")
  have f0: "kernelFrame s s0" using ApplyStart_frame [of s env state] by (simp add: a0)
  show ?thesis
  proof (cases r0)
    case (Some e)
    then have "Apply env state s = (Some e, s0)" by (simp add: Apply_def a0)
    moreover have "\<not> passOK env state s" using Some by (simp add: passOK_def a0)
    ultimately show ?thesis using start f0 by simp
  next
    case None
    let ?sa = "s0\<lparr>stickySvcs := Map.empty, stickyEps := Map.empty\<rparr>"
    have ps: "passStart env state s = applyReset ?sa" by (simp add: passStart_def a0)
    obtain r1 ms sp where a1:
      "applyServices env state (remdups (env_svcOrder env)) [] (applyReset ?sa) = (r1, ms, sp)"
      by (cases "applyServices env state (remdups (env_svcOrder env)) [] (applyReset ?sa)")
    have pe: "passEnd env state s = sp" by (simp add: passEnd_def ps a1)
    have fp: "kernelFrame s sp" using passEnd_frame [of s env state] by (simp add: pe)
    show ?thesis
    proof (cases r1)
      case (Some e)
      then have "Apply env state s = (Some e, sp\<lparr>stickySvcs := Map.empty, stickyEps := Map.empty\<rparr>)"
        using None by (simp add: Apply_def a0 apply0_def a1)
      moreover have "\<not> passOK env state s" using Some by (simp add: passOK_def ps a1)
      ultimately show ?thesis using start fp by (simp add: kernelFrame_def kernelOf_def)
    next
      case None
      note n1 = this
      have ok: "passOK env state s" using n1 \<open>r0 = None\<close> by (simp add: passOK_def ps a1 a0)
      obtain r2 s2 where a2: "applyPhases env sp = (r2, s2)" by (cases "applyPhases env sp")
      show ?thesis
      proof (cases r2)
        case (Some e)
        then have "Apply env state s = (Some e, s2\<lparr>stickySvcs := Map.empty, stickyEps := Map.empty\<rparr>)"
          using n1 \<open>r0 = None\<close> by (simp add: Apply_def a0 apply0_def a1 a2)
        then show ?thesis using phases ok Some
          by (simp add: pe a2 kernelFrame_def kernelOf_def)
      next
        case None
        let ?s3 = "(runExpandNPFixup ms s2)\<lparr>synced := True\<rparr>"
        have "Apply env state s =
            (fst (cleanupSticky env ?s3),
             (snd (cleanupSticky env ?s3))\<lparr>stickySvcs := Map.empty, stickyEps := Map.empty\<rparr>)"
          using n1 None \<open>r0 = None\<close>
          by (simp add: Apply_def a0 apply0_def a1 a2 split: prod.splits)
        moreover have "kernelFrame s2 ?s3"
          by (simp add: runExpandNPFixup_def kernelFrame_def kernelOf_def)
        ultimately show ?thesis using phases ok None cleanupSticky_frame [of ?s3 env]
          by (simp add: pe a2 kernelFrame_def kernelOf_def)
      qed
    qed
  qed
qed

lemma staleSyncer_fields:
  "ipFamily staleSyncer = 4" "synced staleSyncer = True" "nextSvcID staleSyncer = 8"
  "prevSvcMap staleSyncer = Map.empty" "newSvcMap staleSyncer = Map.empty"
  "newEpsMap staleSyncer = Map.empty" "stickyEps staleSyncer = Map.empty"
  "excludedCIDRs staleSyncer = None" "kernelLog staleSyncer = []"
  "bpfSvcs staleSyncer = \<lparr>Dataplane = [keyOld \<mapsto> NewNATValue 5 1 0 0], Desired = Map.empty\<rparr>"
  "bpfEps staleSyncer =
     \<lparr>Dataplane = [NewNATBackendKey 5 0 \<mapsto> \<lparr>bv_addr = IP4 0x02000009, bv_port = 8080\<rparr>],
      Desired = Map.empty\<rparr>"
  by (simp_all add: staleSyncer_def emptySyncer_def)

lemma passStart_stale:
  "env_svcOrder env = x \<Longrightarrow> passStart env stateA staleSyncer = staleSyncer"
  by (simp add: passStart_def ApplyStart_def StopExpandNPFixup_def applyReset_def
      Desired_DeleteAll_def staleSyncer_def emptySyncer_def)

lemma ApplyStart_stale: "fst (ApplyStart env stateA staleSyncer) = None"
  by (simp add: ApplyStart_def staleSyncer_fields)

lemma appliedW_ok:
  "applySvc (getSvcKey ''default/a:http'' None) svcA epsA staleSyncer = (None, appliedW)"
  using applySvc_fst [of "getSvcKey ''default/a:http'' None" svcA epsA staleSyncer]
  by (simp add: prod_eq_iff svcA_fields ProtoV1ToInt_def appliedW_def)

lemma epsA_ready:
  "readyLocal epsA = [mkEp (IP4 0x02000001) 8080 True True False]"
  "readyRemote epsA = [mkEp (IP4 0x02000002) 8080 False True False,
      mkEp (IP4 0x02000003) 8080 False True False]"
  by (simp_all add: readyLocal_def readyRemote_def epsA_def mkEp_def)

lemma appliedW_id: "applySvc_id (getSvcKey ''default/a:http'' None) svcA staleSyncer = 8"
  "applySvc_reuses (getSvcKey ''default/a:http'' None) svcA staleSyncer = False"
  by (simp_all add: applySvc_id_def applySvc_reuses_def staleSyncer_fields)

lemma applySvc_tables:
  "bpfEps (snd (applySvc skey sinfo eps s)) =
     bpfEps (updateService_backends (applySvc_id skey sinfo s) sinfo eps
       (if applySvc_reuses skey sinfo s then s else s\<lparr>nextSvcID := nextSvcID s + 1\<rparr>))"
  "bpfSvcs (snd (applySvc skey sinfo eps s)) =
     bpfSvcs (snd (writeSvc sinfo (applySvc_id skey sinfo s)
       (length (readyLocal eps) + length (readyRemote eps)) (length (readyLocal eps))
       (if nodeLocalInternal sinfo then {NATFlgInternalLocal} else {})
       (updateService_backends (applySvc_id skey sinfo s) sinfo eps
         (if applySvc_reuses skey sinfo s then s else s\<lparr>nextSvcID := nextSvcID s + 1\<rparr>))))"
proof -
  let ?sa = "if applySvc_reuses skey sinfo s then s else s\<lparr>nextSvcID := nextSvcID s + 1\<rparr>"
  let ?w = "writeSvc sinfo (applySvc_id skey sinfo s)
     (length (readyLocal eps) + length (readyRemote eps)) (length (readyLocal eps))
     (if nodeLocalInternal sinfo then {NATFlgInternalLocal} else {})
     (updateService_backends (applySvc_id skey sinfo s) sinfo eps ?sa)"
  obtain r4 x where w: "?w = (r4, x)" by (cases ?w)
  then have xs: "x = snd ?w" by simp
  then have x: "bpfEps x = bpfEps (updateService_backends (applySvc_id skey sinfo s) sinfo eps ?sa)"
    by simp
  show "bpfEps (snd (applySvc skey sinfo eps s)) =
     bpfEps (updateService_backends (applySvc_id skey sinfo s) sinfo eps ?sa)"
    using x unfolding applySvc_unfold updateService_unfold w
    by (auto split: option.splits if_splits)
  have "bpfSvcs (snd (applySvc skey sinfo eps s)) = bpfSvcs x"
    unfolding applySvc_unfold updateService_unfold w
    by (auto split: option.splits if_splits)
  then show "bpfSvcs (snd (applySvc skey sinfo eps s)) = bpfSvcs (snd ?w)" using xs by simp
qed

lemma appliedW_tables:
  "Dataplane (bpfEps appliedW) =
     [NewNATBackendKey 5 0 \<mapsto> \<lparr>bv_addr = IP4 0x02000009, bv_port = 8080\<rparr>]"
  "Desired (bpfEps appliedW) =
     [NewNATBackendKey 8 0 \<mapsto> \<lparr>bv_addr = IP4 0x02000001, bv_port = 8080\<rparr>,
      NewNATBackendKey 8 1 \<mapsto> \<lparr>bv_addr = IP4 0x02000002, bv_port = 8080\<rparr>,
      NewNATBackendKey 8 2 \<mapsto> \<lparr>bv_addr = IP4 0x02000003, bv_port = 8080\<rparr>]"
  "Dataplane (bpfSvcs appliedW) = [keyOld \<mapsto> NewNATValue 5 1 0 0]"
  "Desired (bpfSvcs appliedW) = [keyA \<mapsto> NewNATValue 8 3 1 0]"
  "kernelLog appliedW = []"
proof -
  have e: "bpfEps appliedW =
      bpfEps (updateService_backends 8 svcA epsA (staleSyncer\<lparr>nextSvcID := nextSvcID staleSyncer + 1\<rparr>))"
    unfolding appliedW_def applySvc_tables appliedW_id by simp
  show "Dataplane (bpfEps appliedW) =
     [NewNATBackendKey 5 0 \<mapsto> \<lparr>bv_addr = IP4 0x02000009, bv_port = 8080\<rparr>]"
    unfolding e
    by (simp add: updateService_backends_def epsA_ready svcA_fields writeSvcBackend_def Let_def
        setDesiredEp_def Desired_Set_def newBackendValue_def mkEp_def staleSyncer_fields)
  show "Desired (bpfEps appliedW) =
     [NewNATBackendKey 8 0 \<mapsto> \<lparr>bv_addr = IP4 0x02000001, bv_port = 8080\<rparr>,
      NewNATBackendKey 8 1 \<mapsto> \<lparr>bv_addr = IP4 0x02000002, bv_port = 8080\<rparr>,
      NewNATBackendKey 8 2 \<mapsto> \<lparr>bv_addr = IP4 0x02000003, bv_port = 8080\<rparr>]"
    unfolding e
    by (simp add: updateService_backends_def epsA_ready svcA_fields writeSvcBackend_def Let_def
        setDesiredEp_def Desired_Set_def newBackendValue_def mkEp_def staleSyncer_fields)
  have f: "syncFrame staleSyncer appliedW"
    using applySvc_syncStep [of staleSyncer "getSvcKey ''default/a:http'' None" svcA epsA]
    by (simp add: appliedW_def syncStep_def)
  then show "Dataplane (bpfSvcs appliedW) = [keyOld \<mapsto> NewNATValue 5 1 0 0]"
    and "kernelLog appliedW = []"
    by (simp_all add: syncFrame_def staleSyncer_fields)
  show "Desired (bpfSvcs appliedW) = [keyA \<mapsto> NewNATValue 8 3 1 0]"
    unfolding appliedW_def applySvc_tables appliedW_id writeSvc_Desired
    by (simp add: getSvcNATKey_def updateService_backends_def svcA_fields ProtoV1ToInt_def
        newFrontendKey_def newFrontendKeySrc_def ZeroCIDR_def staleSyncer_fields keyA_def
        epsA_ready NewNATValue_def affinityTimeo_def)
qed

lemma envW_fields:
  "env_svcOrder envW = [''default/a:http'']" "env_frontendOrder envW = [keyOld, keyA]"
  "env_backendOrder envW = [NewNATBackendKey 5 0, NewNATBackendKey 8 0, NewNATBackendKey 8 1,
                           NewNATBackendKey 8 2]"
  "env_frontendFails envW = (\<lambda>k. False)" "env_backendFails envW = (\<lambda>k. False)"
  "env_topology envW = (\<lambda>zone hints zones. True)"
  by (simp_all add: envW_def quietEnv_def)

lemma envF_fields:
  "env_svcOrder envF = [''default/a:http'']" "env_frontendOrder envF = [keyOld, keyA]"
  "env_backendOrder envF = [NewNATBackendKey 5 0, NewNATBackendKey 8 0, NewNATBackendKey 8 1,
                           NewNATBackendKey 8 2]"
  "env_frontendFails envF = (\<lambda>k. k = keyA)" "env_backendFails envF = (\<lambda>k. False)"
  "env_topology envF = (\<lambda>zone hints zones. True)"
  by (simp_all add: envF_def envW_def quietEnv_def)

lemma applyServices_stale:
  assumes "env_svcOrder env = [''default/a:http'']"
    and "env_topology env = (\<lambda>zone hints zones. True)"
  shows "applyServices env stateA (remdups (env_svcOrder env)) [] (passStart env stateA staleSyncer) =
           (None, [], appliedW)"
proof -
  have e: "applyEps env stateA ''default/a:http'' svcA = epsA"
    by (simp add: applyEps_def assms(2) stateA_def epsA_def mkEp_def)
  have "applyService env stateA ''default/a:http'' svcA [] staleSyncer = (None, [], appliedW)"
    by (simp add: applyService_def e appliedW_ok svcA_fields)
  moreover have "SvcMap stateA ''default/a:http'' = Some svcA" by (simp add: stateA_def)
  ultimately show ?thesis
    by (simp add: assms(1) passStart_stale [OF assms(1)])
qed

lemma pass_stale:
  assumes "env_svcOrder env = [''default/a:http'']"
    and "env_topology env = (\<lambda>zone hints zones. True)"
  shows "passEnd env stateA staleSyncer = appliedW" and "passOK env stateA staleSyncer"
  using applyServices_stale [OF assms] ApplyStart_stale [of env]
  by (simp_all add: passEnd_def passOK_def)

lemma keys_distinct: "keyOld \<noteq> keyA" "keyA \<noteq> keyOld"
  by (simp_all add: keyOld_def keyA_def)

lemma covers_stale:
  assumes "env_frontendOrder env = [keyOld, keyA]"
    and "env_backendOrder env = [NewNATBackendKey 5 0, NewNATBackendKey 8 0, NewNATBackendKey 8 1,
                           NewNATBackendKey 8 2]"
  shows "envCovers env staleSyncer appliedW"
  by (simp add: envCovers_def assms appliedW_tables staleSyncer_fields)

lemma phasesW:
  "fst (applyPhases envW appliedW) = None"
  "kernelLog (snd (applyPhases envW appliedW)) =
     [FrontendDelete keyOld,
      BackendUpdate (NewNATBackendKey 8 0) \<lparr>bv_addr = IP4 0x02000001, bv_port = 8080\<rparr>,
      BackendUpdate (NewNATBackendKey 8 1) \<lparr>bv_addr = IP4 0x02000002, bv_port = 8080\<rparr>,
      BackendUpdate (NewNATBackendKey 8 2) \<lparr>bv_addr = IP4 0x02000003, bv_port = 8080\<rparr>,
      FrontendUpdate keyA (NewNATValue 8 3 1 0),
      BackendDelete (NewNATBackendKey 5 0)]"
  by (simp_all add: applyPhases_def svcsApplyDeletionsOnly_def epsApplyUpdatesOnly_def
      svcsApplyUpdatesOnly_def epsApplyDeletionsOnly_def envW_fields appliedW_tables
      keys_distinct NewNATBackendKey_def)

lemma phasesF:
  "fst (applyPhases envF appliedW) = Some dataplaneError"
  "kernelLog (snd (applyPhases envF appliedW)) =
     [FrontendDelete keyOld,
      BackendUpdate (NewNATBackendKey 8 0) \<lparr>bv_addr = IP4 0x02000001, bv_port = 8080\<rparr>,
      BackendUpdate (NewNATBackendKey 8 1) \<lparr>bv_addr = IP4 0x02000002, bv_port = 8080\<rparr>,
      BackendUpdate (NewNATBackendKey 8 2) \<lparr>bv_addr = IP4 0x02000003, bv_port = 8080\<rparr>]"
  by (simp_all add: applyPhases_def svcsApplyDeletionsOnly_def epsApplyUpdatesOnly_def
      svcsApplyUpdatesOnly_def epsApplyDeletionsOnly_def envF_fields appliedW_tables
      keys_distinct NewNATBackendKey_def)

lemma newWrites_append: "kernelLog s' = kernelLog s @ new \<Longrightarrow> newWrites s s' = new"
  by (simp add: newWrites_def)

text \<open>
  C1. In one \<^verbatim>\<open>Apply\<close>, in an environment whose orders cover the tables: the log of
  kernel writes grows by the writes of the call; they are in the order of the four
  phases (frontend deletions, backend updates, frontend updates, backend deletions);
  each is safe for the kernel it is made on, so no frontend is installed that references
  a backend missing from the kernel and no backend is removed that a frontend of the
  kernel references; the kernel tables after the call are the tables before it with
  the writes replayed, so what was written stays in place. \<^verbatim>\<open>apply\<close> runs the four
  phases until the first error; when the loop over the services has succeeded and the
  phases end with an error, \<^verbatim>\<open>Apply\<close> returns that error, and the kernel and the
  writes are those of the phases run until then.
\<close>

theorem Apply_four_phases:
  assumes "envCovers env s (passEnd env state s)"
  shows "kernelLog (snd (Apply env state s)) = kernelLog s @ newWrites s (snd (Apply env state s)) \<and>
    fourPhases (newWrites s (snd (Apply env state s))) \<and>
    safeLog (newWrites s (snd (Apply env state s))) (kernelOf s) \<and>
    replay (newWrites s (snd (Apply env state s))) (kernelOf s) = kernelOf (snd (Apply env state s)) \<and>
    applyPhases env (passEnd env state s) =
      runUntilError [svcsApplyDeletionsOnly env, epsApplyUpdatesOnly env, svcsApplyUpdatesOnly env,
                     epsApplyDeletionsOnly env] (passEnd env state s) \<and>
    (passOK env state s \<longrightarrow>
       (\<forall>e. fst (applyPhases env (passEnd env state s)) = Some e \<longrightarrow>
          fst (Apply env state s) = Some e \<and>
          kernelOf (snd (Apply env state s)) = kernelOf (snd (applyPhases env (passEnd env state s))) \<and>
          newWrites s (snd (Apply env state s)) =
            newWrites (passEnd env state s) (snd (applyPhases env (passEnd env state s)))))"
proof -
  let ?sp = "passEnd env state s"
  let ?s2 = "snd (applyPhases env ?sp)"
  let ?s' = "snd (Apply env state s)"
  have fp: "kernelOf ?sp = kernelOf s" "kernelLog ?sp = kernelLog s"
    using passEnd_frame [of s env state] by (simp_all add: kernelFrame_def)
  have dp: "Dataplane (bpfSvcs ?sp) = Dataplane (bpfSvcs s)"
    using fp(1) by (simp add: kernelOf_def)
  from assms have cf: "dom (Dataplane (bpfSvcs ?sp)) \<union> dom (Desired (bpfSvcs ?sp)) \<subseteq>
      set (env_frontendOrder env)"
    and cb: "dom (Desired (bpfEps ?sp)) \<subseteq> set (env_backendOrder env)"
    unfolding envCovers_def dp by simp_all
  from applyPhases_writes [OF passEnd_closed cf cb]
  obtain new where new: "kernelLog ?s2 = kernelLog ?sp @ new" "fourPhases new"
    "safeLog new (kernelOf ?sp)" "replay new (kernelOf ?sp) = kernelOf ?s2" by blast
  have run: "applyPhases env ?sp =
      runUntilError [svcsApplyDeletionsOnly env, epsApplyUpdatesOnly env, svcsApplyUpdatesOnly env,
                     epsApplyDeletionsOnly env] ?sp"
    by (rule applyPhases_runUntilError)
  show ?thesis
  proof (cases rule: Apply_cases [of env state s])
    case start
    then have n: "newWrites s ?s' = []" and k: "kernelOf ?s' = kernelOf s"
      and l: "kernelLog ?s' = kernelLog s"
      by (simp_all add: kernelFrame_def newWrites_def)
    show ?thesis using start(1) run unfolding n k l
      by (simp add: fourPhases_def replay_def)
  next
    case phases
    have l: "kernelLog ?s' = kernelLog s @ new" and k: "kernelOf ?s' = kernelOf ?s2"
      using phases(2) new(1) fp(2) by (simp_all add: kernelFrame_def)
    have n: "newWrites s ?s' = new" by (rule newWrites_append [OF l])
    have n2: "newWrites ?sp ?s2 = new" by (rule newWrites_append [OF new(1)])
    have 1: "kernelLog ?s' = kernelLog s @ newWrites s ?s'" unfolding n by (rule l)
    have 2: "fourPhases (newWrites s ?s')" unfolding n by (rule new(2))
    have 3: "safeLog (newWrites s ?s') (kernelOf s)" unfolding n using new(3) fp(1) by simp
    have 4: "replay (newWrites s ?s') (kernelOf s) = kernelOf ?s'"
      unfolding n k using new(4) fp(1) by simp
    have 6: "\<forall>e. fst (applyPhases env ?sp) = Some e \<longrightarrow>
          fst (Apply env state s) = Some e \<and> kernelOf ?s' = kernelOf ?s2 \<and>
          newWrites s ?s' = newWrites ?sp ?s2"
      using phases(3) k n n2 by simp
    from 1 2 3 4 run 6 show ?thesis by (intro conjI impI)
  qed
qed

lemma kernelOf_stale:
  "kernelOf staleSyncer =
     ([keyOld \<mapsto> NewNATValue 5 1 0 0],
      [NewNATBackendKey 5 0 \<mapsto> \<lparr>bv_addr = IP4 0x02000009, bv_port = 8080\<rparr>])"
  by (simp add: kernelOf_def staleSyncer_fields)

theorem Apply_four_phases_witness:
  "envCovers envW staleSyncer (passEnd envW stateA staleSyncer) \<and>
   newWrites staleSyncer (snd (Apply envW stateA staleSyncer)) =
     [FrontendDelete keyOld,
      BackendUpdate (NewNATBackendKey 8 0) \<lparr>bv_addr = IP4 0x02000001, bv_port = 8080\<rparr>,
      BackendUpdate (NewNATBackendKey 8 1) \<lparr>bv_addr = IP4 0x02000002, bv_port = 8080\<rparr>,
      BackendUpdate (NewNATBackendKey 8 2) \<lparr>bv_addr = IP4 0x02000003, bv_port = 8080\<rparr>,
      FrontendUpdate keyA (NewNATValue 8 3 1 0),
      BackendDelete (NewNATBackendKey 5 0)] \<and>
   fourPhases (newWrites staleSyncer (snd (Apply envW stateA staleSyncer))) \<and>
   safeLog (newWrites staleSyncer (snd (Apply envW stateA staleSyncer))) (kernelOf staleSyncer) \<and>
   kernelOf (snd (Apply envW stateA staleSyncer)) =
     ([keyA \<mapsto> NewNATValue 8 3 1 0],
      [NewNATBackendKey 8 0 \<mapsto> \<lparr>bv_addr = IP4 0x02000001, bv_port = 8080\<rparr>,
       NewNATBackendKey 8 1 \<mapsto> \<lparr>bv_addr = IP4 0x02000002, bv_port = 8080\<rparr>,
       NewNATBackendKey 8 2 \<mapsto> \<lparr>bv_addr = IP4 0x02000003, bv_port = 8080\<rparr>]) \<and>
   envCovers envF staleSyncer (passEnd envF stateA staleSyncer) \<and>
   passOK envF stateA staleSyncer \<and>
   fst (applyPhases envF (passEnd envF stateA staleSyncer)) = Some dataplaneError \<and>
   fst (Apply envF stateA staleSyncer) = Some dataplaneError \<and>
   newWrites staleSyncer (snd (Apply envF stateA staleSyncer)) =
     [FrontendDelete keyOld,
      BackendUpdate (NewNATBackendKey 8 0) \<lparr>bv_addr = IP4 0x02000001, bv_port = 8080\<rparr>,
      BackendUpdate (NewNATBackendKey 8 1) \<lparr>bv_addr = IP4 0x02000002, bv_port = 8080\<rparr>,
      BackendUpdate (NewNATBackendKey 8 2) \<lparr>bv_addr = IP4 0x02000003, bv_port = 8080\<rparr>] \<and>
   safeLog (newWrites staleSyncer (snd (Apply envF stateA staleSyncer))) (kernelOf staleSyncer)"
proof -
  have pW: "passEnd envW stateA staleSyncer = appliedW" "passOK envW stateA staleSyncer"
    by (rule pass_stale; simp add: envW_fields)+
  have pF: "passEnd envF stateA staleSyncer = appliedW" "passOK envF stateA staleSyncer"
    by (rule pass_stale; simp add: envF_fields)+
  have cW: "envCovers envW staleSyncer (passEnd envW stateA staleSyncer)"
    unfolding pW by (rule covers_stale) (simp_all add: envW_fields)
  have cF: "envCovers envF staleSyncer (passEnd envF stateA staleSyncer)"
    unfolding pF by (rule covers_stale) (simp_all add: envF_fields)
  note tW = Apply_four_phases [OF cW]
  note tF = Apply_four_phases [OF cF]
  let ?sW = "snd (Apply envW stateA staleSyncer)"
  let ?sF = "snd (Apply envF stateA staleSyncer)"
  have lW: "kernelLog ?sW = kernelLog (snd (applyPhases envW appliedW))"
    using pW by (cases rule: Apply_cases [of envW stateA staleSyncer]) (simp_all add: kernelFrame_def)
  have nW: "newWrites staleSyncer ?sW =
     [FrontendDelete keyOld,
      BackendUpdate (NewNATBackendKey 8 0) \<lparr>bv_addr = IP4 0x02000001, bv_port = 8080\<rparr>,
      BackendUpdate (NewNATBackendKey 8 1) \<lparr>bv_addr = IP4 0x02000002, bv_port = 8080\<rparr>,
      BackendUpdate (NewNATBackendKey 8 2) \<lparr>bv_addr = IP4 0x02000003, bv_port = 8080\<rparr>,
      FrontendUpdate keyA (NewNATValue 8 3 1 0),
      BackendDelete (NewNATBackendKey 5 0)]"
    by (simp add: newWrites_def lW phasesW staleSyncer_fields)
  have fW: "fourPhases (newWrites staleSyncer ?sW)" using tW by (rule conjunct2 [THEN conjunct1])
  have sW: "safeLog (newWrites staleSyncer ?sW) (kernelOf staleSyncer)"
    using tW by (rule conjunct2 [THEN conjunct2, THEN conjunct1])
  have "replay (newWrites staleSyncer ?sW) (kernelOf staleSyncer) = kernelOf ?sW"
    using tW by (rule conjunct2 [THEN conjunct2, THEN conjunct2, THEN conjunct1])
  then have kW: "kernelOf ?sW =
     ([keyA \<mapsto> NewNATValue 8 3 1 0],
      [NewNATBackendKey 8 0 \<mapsto> \<lparr>bv_addr = IP4 0x02000001, bv_port = 8080\<rparr>,
       NewNATBackendKey 8 1 \<mapsto> \<lparr>bv_addr = IP4 0x02000002, bv_port = 8080\<rparr>,
       NewNATBackendKey 8 2 \<mapsto> \<lparr>bv_addr = IP4 0x02000003, bv_port = 8080\<rparr>])"
    unfolding nW kernelOf_stale
    by (simp add: replay_def keys_distinct NewNATBackendKey_def fun_eq_iff)
  have eF: "fst (applyPhases envF (passEnd envF stateA staleSyncer)) = Some dataplaneError"
    unfolding pF by (rule phasesF)
  from tF have "passOK envF stateA staleSyncer \<longrightarrow>
       (\<forall>e. fst (applyPhases envF (passEnd envF stateA staleSyncer)) = Some e \<longrightarrow>
          fst (Apply envF stateA staleSyncer) = Some e \<and>
          kernelOf ?sF = kernelOf (snd (applyPhases envF (passEnd envF stateA staleSyncer))) \<and>
          newWrites staleSyncer ?sF =
            newWrites (passEnd envF stateA staleSyncer)
              (snd (applyPhases envF (passEnd envF stateA staleSyncer))))"
    by (rule conjunct2 [THEN conjunct2, THEN conjunct2, THEN conjunct2, THEN conjunct2])
  from this [rule_format, OF pF(2) eF]
  have rF: "fst (Apply envF stateA staleSyncer) = Some dataplaneError"
    and nF0: "newWrites staleSyncer ?sF = newWrites appliedW (snd (applyPhases envF appliedW))"
    unfolding pF by simp_all
  have nF: "newWrites staleSyncer ?sF =
     [FrontendDelete keyOld,
      BackendUpdate (NewNATBackendKey 8 0) \<lparr>bv_addr = IP4 0x02000001, bv_port = 8080\<rparr>,
      BackendUpdate (NewNATBackendKey 8 1) \<lparr>bv_addr = IP4 0x02000002, bv_port = 8080\<rparr>,
      BackendUpdate (NewNATBackendKey 8 2) \<lparr>bv_addr = IP4 0x02000003, bv_port = 8080\<rparr>]"
    unfolding nF0 by (simp add: newWrites_def phasesF appliedW_tables)
  have sF: "safeLog (newWrites staleSyncer ?sF) (kernelOf staleSyncer)"
    using tF by (rule conjunct2 [THEN conjunct2, THEN conjunct1])
  from cW nW fW sW kW cF pF(2) eF rF nF sF show ?thesis by (intro conjI)
qed

end
